theory Spec2Isabelle
  imports Complex_Main
begin

section \<open>Media Processor helpers (videoProcessor.js)\<close>

subsection \<open>Quality selector\<close>

text \<open>
  \<^verbatim>\<open>getYtDlpQualityFormat(quality)\<close> is a \<^verbatim>\<open>switch\<close> on the quality string
  with four labelled cases and a default; the model keeps the order of the cases.
\<close>

definition getYtDlpQualityFormat :: "string \<Rightarrow> string" where
  "getYtDlpQualityFormat quality =
     (if quality = ''360p'' then ''best[height<=360]''
      else if quality = ''720p'' then ''best[height<=720]''
      else if quality = ''1080p'' then ''best[height<=1080]''
      else if quality = ''original'' then ''best''
      else ''best'')"

subsection \<open>Available quality tiers\<close>

text \<open>
  One entry of the \<^verbatim>\<open>formats\<close> array of the extractor's JSON. A field that is absent
  or \<^verbatim>\<open>null\<close> is \<open>None\<close>. Heights are the integers the extractor declares.
\<close>

record yt_format =
  height :: "int option"
  filesize :: "int option"
  acodec :: "string option"







section \<open>Platform Matcher (urlValidator.js)\<close>

subsection \<open>Strings\<close>

text \<open>
  Strings are lists of 8-bit characters. The URLs and domain substrings of the matcher are
  ASCII; on ASCII, \<^verbatim>\<open>String.prototype.toLowerCase\<close> maps A to Z onto a to z and
  leaves every other character alone, and the canonicalisation a regular expression with
  the flag \<^verbatim>\<open>i\<close> (and without \<^verbatim>\<open>u\<close>) applies to both sides of a character
  comparison maps a to z onto A to Z.
\<close>

definition upperAZ :: string where
  "upperAZ = ''ABCDEFGHIJKLMNOPQRSTUVWXYZ''"

definition lowerAZ :: string where
  "lowerAZ = ''abcdefghijklmnopqrstuvwxyz''"

definition digits09 :: string where
  "digits09 = ''0123456789''"

definition toLowerChar :: "char \<Rightarrow> char" where
  "toLowerChar c = (case map_of (zip upperAZ lowerAZ) c of None \<Rightarrow> c | Some l \<Rightarrow> l)"

definition toLowerCase :: "string \<Rightarrow> string" where
  "toLowerCase s = map toLowerChar s"

definition canonicalize :: "char \<Rightarrow> char" where
  "canonicalize c = (case map_of (zip lowerAZ upperAZ) c of None \<Rightarrow> c | Some u \<Rightarrow> u)"

text \<open>\<^verbatim>\<open>s.startsWith(d)\<close> and \<^verbatim>\<open>s.includes(d)\<close>.\<close>

fun startsWith :: "string \<Rightarrow> string \<Rightarrow> bool" where
  "startsWith s [] = True"
| "startsWith [] (d # ds) = False"
| "startsWith (c # cs) (d # ds) = (if c = d then startsWith cs ds else False)"

fun str_includes :: "string \<Rightarrow> string \<Rightarrow> bool" where
  "str_includes [] d = (d = [])"
| "str_includes (c # cs) d = (if startsWith (c # cs) d then True else str_includes cs d)"

subsection \<open>Regular expressions\<close>

text \<open>
  The fragment of JavaScript regular expressions the pattern table uses. A \<open>catom\<close>
  is what one pattern character or class escape matches: a literal character (compared
  case-insensitively, all patterns carry the flag \<^verbatim>\<open>i\<close>), \<^verbatim>\<open>\d\<close>, \<^verbatim>\<open>\w\<close>
  or the dot. A bracket expression such as \<^verbatim>\<open>[\w.-]\<close> is the list of its members.
  Repetition is applied to single characters and classes only, as in the table.
\<close>

datatype catom = Ch char | Digit | Word | AnyChar

datatype rx =
    Eps
  | Sym "catom list"
  | Cat rx rx
  | Opt rx
  | Plus "catom list"
  | Star "catom list"

definition isDigit :: "char \<Rightarrow> bool" where
  "isDigit c = (c \<in> set digits09)"

definition isWord :: "char \<Rightarrow> bool" where
  "isWord c = (c \<in> set (lowerAZ @ upperAZ @ digits09 @ ''_''))"

fun catom_match :: "catom \<Rightarrow> char \<Rightarrow> bool" where
  "catom_match (Ch a) c = (canonicalize a = canonicalize c)"
| "catom_match Digit c = isDigit c"
| "catom_match Word c = isWord c"
| "catom_match AnyChar c = (c \<noteq> CHR 0x0A \<and> c \<noteq> CHR 0x0D)"

definition class_match :: "catom list \<Rightarrow> char \<Rightarrow> bool" where
  "class_match cls c = list_ex (\<lambda>a. catom_match a c) cls"

text \<open>
  A backtracking matcher: \<open>rx_ends r s\<close> lists what is left of \<open>s\<close> after each way
  of matching \<open>r\<close> at its start, greedy alternatives first. \<^verbatim>\<open>pattern.test(url)\<close>
  is true when the pattern matches at some position of the string; none of the patterns
  is anchored or global.
\<close>

fun star_ends :: "catom list \<Rightarrow> string \<Rightarrow> string list" where
  "star_ends cls [] = [[]]"
| "star_ends cls (c # cs) = (if class_match cls c then star_ends cls cs else []) @ [c # cs]"

fun rx_ends :: "rx \<Rightarrow> string \<Rightarrow> string list" where
  "rx_ends Eps s = [s]"
| "rx_ends (Sym cls) s =
     (case s of [] \<Rightarrow> [] | c # cs \<Rightarrow> if class_match cls c then [cs] else [])"
| "rx_ends (Cat r1 r2) s = concat (map (rx_ends r2) (rx_ends r1 s))"
| "rx_ends (Opt r) s = rx_ends r s @ [s]"
| "rx_ends (Plus cls) s =
     (case s of [] \<Rightarrow> [] | c # cs \<Rightarrow> if class_match cls c then star_ends cls cs else [])"
| "rx_ends (Star cls) s = star_ends cls s"

fun rx_test :: "rx \<Rightarrow> string \<Rightarrow> bool" where
  "rx_test r [] = (rx_ends r [] \<noteq> [])"
| "rx_test r (c # cs) = (if rx_ends r (c # cs) \<noteq> [] then True else rx_test r cs)"

text \<open>A literal run of pattern characters, and a sequence of sub-patterns.\<close>

definition lit :: "string \<Rightarrow> rx" where
  "lit s = foldr (\<lambda>c r. Cat (Sym [Ch c]) r) s Eps"

definition seqs :: "rx list \<Rightarrow> rx" where
  "seqs rs = foldr Cat rs Eps"

text \<open>The two optional prefixes \<^verbatim>\<open>(?:https?:\/\/)?\<close> and \<^verbatim>\<open>(?:www\.)?\<close>.\<close>

definition proto :: rx where
  "proto = Opt (seqs [lit ''http'', Opt (lit ''s''), lit ''://''])"

definition www :: rx where
  "www = Opt (lit ''www.'')"

text \<open>The bracket expressions \<^verbatim>\<open>[\w.-]\<close> and \<^verbatim>\<open>[\w-]\<close>.\<close>

definition word_dot_dash :: "catom list" where
  "word_dot_dash = [Word, Ch CHR ''.'', Ch CHR ''-'']"

definition word_dash :: "catom list" where
  "word_dash = [Word, Ch CHR ''-'']"

subsection \<open>The platform table\<close>

record platform =
  domains :: "string list"
  patterns :: "rx list"
  name :: string

definition tiktok :: platform where
  "tiktok = \<lparr>
     domains = [''tiktok.com'', ''vm.tiktok.com''],
     patterns = [
       seqs [proto, www, lit ''tiktok.com/@'', Plus word_dot_dash, lit ''/video/'', Plus [Digit]],
       seqs [proto, lit ''vm.tiktok.com/'', Plus [Word]]],
     name = ''TikTok''\<rparr>"

definition instagram :: platform where
  "instagram = \<lparr>
     domains = [''instagram.com''],
     patterns = [
       seqs [proto, www, lit ''instagram.com/p/'', Plus word_dash],
       seqs [proto, www, lit ''instagram.com/reel/'', Plus word_dash],
       seqs [proto, www, lit ''instagram.com/stories/'', Plus word_dot_dash, lit ''/'', Plus [Digit]]],
     name = ''Instagram''\<rparr>"

definition youtube :: platform where
  "youtube = \<lparr>
     domains = [''youtube.com'', ''youtu.be'', ''m.youtube.com''],
     patterns = [
       seqs [proto, www, lit ''youtube.com/watch?v='', Plus word_dash],
       seqs [proto, www, lit ''youtube.com/embed/'', Plus word_dash],
       seqs [proto, lit ''youtu.be/'', Plus word_dash],
       seqs [proto, www, lit ''youtube.com/v/'', Plus word_dash]],
     name = ''YouTube''\<rparr>"

definition twitter :: platform where
  "twitter = \<lparr>
     domains = [''twitter.com'', ''x.com'', ''mobile.twitter.com''],
     patterns = [
       seqs [proto, www, lit ''twitter.com/'', Plus [Word], lit ''/status/'', Plus [Digit]],
       seqs [proto, www, lit ''x.com/'', Plus [Word], lit ''/status/'', Plus [Digit]],
       seqs [proto, lit ''mobile.twitter.com/'', Plus [Word], lit ''/status/'', Plus [Digit]]],
     name = ''Twitter/X''\<rparr>"

definition facebook :: platform where
  "facebook = \<lparr>
     domains = [''facebook.com'', ''fb.watch'', ''m.facebook.com''],
     patterns = [
       seqs [proto, www, lit ''facebook.com/'', Star [AnyChar], lit ''/videos/'', Plus [Digit]],
       seqs [proto, www, lit ''facebook.com/watch/?v='', Plus [Digit]],
       seqs [proto, lit ''fb.watch/'', Plus word_dash],
       seqs [proto, www, lit ''facebook.com/'', Plus word_dot_dash, lit ''/posts/'', Plus [Digit]]],
     name = ''Facebook''\<rparr>"

definition snapchat :: platform where
  "snapchat = \<lparr>
     domains = [''snapchat.com''],
     patterns = [
       seqs [proto, www, lit ''snapchat.com/add/'', Plus word_dot_dash],
       seqs [proto, lit ''story.snapchat.com/p/'', Plus word_dash]],
     name = ''Snapchat''\<rparr>"

text \<open>\<^verbatim>\<open>Object.entries(SUPPORTED_PLATFORMS)\<close>: the keys in insertion order.\<close>

definition SUPPORTED_PLATFORMS :: "platform list" where
  "SUPPORTED_PLATFORMS = [tiktok, instagram, youtube, twitter, facebook, snapchat]"

subsection \<open>detectPlatform and validateUrl\<close>

definition hasValidDomain :: "platform \<Rightarrow> string \<Rightarrow> bool" where
  "hasValidDomain p url = list_ex (\<lambda>d. str_includes (toLowerCase url) d) (domains p)"

definition matchesPattern :: "platform \<Rightarrow> string \<Rightarrow> bool" where
  "matchesPattern p url = list_ex (\<lambda>r. rx_test r url) (patterns p)"

text \<open>The \<^verbatim>\<open>for\<close> loop of \<^verbatim>\<open>detectPlatform\<close> over the platforms, in order.\<close>

fun detect_loop :: "platform list \<Rightarrow> string \<Rightarrow> string" where
  "detect_loop [] url = ''unknown''"
| "detect_loop (p # ps) url =
     (if hasValidDomain p url
      then (if matchesPattern p url then name p else detect_loop ps url)
      else detect_loop ps url)"

text \<open>
  \<^verbatim>\<open>if (!url || typeof url !== 'string') return 'unknown'\<close>: the argument is a string
  here, and the empty string is the falsy one.
\<close>

definition detectPlatform :: "string \<Rightarrow> string" where
  "detectPlatform url = (if url = [] then ''unknown'' else detect_loop SUPPORTED_PLATFORMS url)"

fun validate_loop :: "platform list \<Rightarrow> string \<Rightarrow> bool" where
  "validate_loop [] url = False"
| "validate_loop (p # ps) url =
     (if hasValidDomain p url
      then (if matchesPattern p url then True else validate_loop ps url)
      else validate_loop ps url)"

text \<open>
  \<^verbatim>\<open>validateUrl\<close> first parses the URL with the runtime's \<^verbatim>\<open>URL\<close> constructor, which
  is not part of the repository: whether a string parses is the parameter \<open>url_parses\<close>.
\<close>

definition validateUrl :: "(string \<Rightarrow> bool) \<Rightarrow> string \<Rightarrow> bool" where
  "validateUrl url_parses url =
     (if url = [] then False
      else if \<not> url_parses (if startsWith url ''http'' then url else ''https://'' @ url) then False
      else validate_loop SUPPORTED_PLATFORMS url)"

text \<open>
  The second half of the matching rule as the specification words it: every URL that
  contains a registered domain substring of some platform and matches no pattern of that
  platform is Unknown.
\<close>

definition spec_domain_without_pattern_unknown :: "string \<Rightarrow> platform \<Rightarrow> bool" where
  "spec_domain_without_pattern_unknown url p =
     (if hasValidDomain p url \<and> \<not> matchesPattern p url then detectPlatform url = ''unknown'' else True)"

section \<open>Media Processor (videoProcessor.js)\<close>

subsection \<open>Paths and external effects\<close>

text \<open>
  \<^verbatim>\<open>TEMP_DIR\<close> is \<^verbatim>\<open>join(__dirname, '../../temp')\<close>, the directory \<^verbatim>\<open>temp\<close> of the
  backend; paths are written relative to the backend's root. \<^verbatim>\<open>path.join\<close> of a
  directory and one plain segment puts a separator between them.
\<close>

definition join :: "string \<Rightarrow> string \<Rightarrow> string" where
  "join dir seg = dir @ ''/'' @ seg"

definition TEMP_DIR :: string where
  "TEMP_DIR = ''temp''"

definition PROCESSING_DIR :: string where
  "PROCESSING_DIR = join TEMP_DIR ''processing''"

definition DOWNLOADS_DIR :: string where
  "DOWNLOADS_DIR = join TEMP_DIR ''downloads''"

text \<open>
  What \<^verbatim>\<open>downloadAndProcessVideo\<close> does to the outside world, in order: file system
  calls, the two child processes with their argument lists, the progress callback and
  the logger. \<open>Rm path recursive force\<close> is \<^verbatim>\<open>fs.rm(path, {recursive, force})\<close>.
\<close>

datatype action =
    Mkdir string
  | OnProgress real string
  | YtDlp "string list"
  | FFmpeg "string list"
  | Rename string string
  | Stat string
  | Rm string bool bool
  | LogInfo string
  | LogWarn string
  | LogError string

text \<open>
  How the outside world answers during one call. A file system call either succeeds or
  rejects with an error message. \<^verbatim>\<open>downloadWithYtDlp\<close> settles with the path of the
  fetched file or with an error message, after the percentages it parsed from the
  child's output; \<^verbatim>\<open>processVideoWithFFmpeg\<close> settles after the pairs of current time
  and total duration (in seconds) it parsed.
\<close>

record world =
  mkdir_fails :: "string option"
  ytdlp_percents :: "nat list"
  ytdlp_result :: "string + string"
  ffmpeg_times :: "(nat \<times> nat) list"
  ffmpeg_fails :: "string option"
  rename_fails :: "string option"
  stat_result :: "string + nat"
  rm_fails :: "string option"

subsection \<open>Child process arguments\<close>

definition ytDlpArgs :: "string \<Rightarrow> string \<Rightarrow> string \<Rightarrow> string list" where
  "ytDlpArgs url outputDir quality =
     [''--format'', getYtDlpQualityFormat quality,
      ''--output'', join outputDir ''video.%(ext)s'',
      ''--no-playlist'',
      ''--extract-flat'', ''false'',
      url]"

text \<open>\<^verbatim>\<open>Array.prototype.indexOf\<close> (\<open>-1\<close> when absent) and \<^verbatim>\<open>splice(start, n, ...items)\<close>.\<close>

fun indexOf :: "'a list \<Rightarrow> 'a \<Rightarrow> int" where
  "indexOf [] x = -1"
| "indexOf (y # ys) x =
     (if y = x then 0 else (let i = indexOf ys x in if i < 0 then -1 else i + 1))"

definition splice :: "'a list \<Rightarrow> int \<Rightarrow> nat \<Rightarrow> 'a list \<Rightarrow> 'a list" where
  "splice xs start n items =
     (let len = int (length xs);
          k = nat (if start < 0 then max (len + start) 0 else min start len)
      in take k xs @ items @ drop (k + n) xs)"

definition delogo_filters :: string where
  "delogo_filters = ''delogo=x=10:y=10:w=100:h=50'' @ '','' @ ''delogo=x=10:y=h-60:w=100:h=50''"

definition ffmpegArgs :: "string \<Rightarrow> string \<Rightarrow> bool \<Rightarrow> string \<Rightarrow> string list" where
  "ffmpegArgs inputPath outputPath removeWatermark fmt =
     (let args0 = [''-i'', inputPath,
                   ''-c:v'', ''libx264'', ''-preset'', ''medium'', ''-crf'', ''23'',
                   ''-c:a'', ''aac'', ''-b:a'', ''128k''];
          args1 = (if removeWatermark then args0 @ [''-vf'', delogo_filters] else args0);
          args2 = (if fmt = ''webm''
                   then (let a = splice args1 (indexOf args1 ''-c:v'') 2 [''-c:v'', ''libvpx-vp9'']
                         in splice a (indexOf a ''-c:a'') 2 [''-c:a'', ''libvorbis''])
                   else args1)
      in args2 @ [''-y'', outputPath])"

subsection \<open>downloadAndProcessVideo\<close>

record dl_options =
  opt_quality :: "string option"
  opt_removeWatermark :: "bool option"
  opt_format :: "string option"

record dl_result =
  success :: bool
  filePath :: string
  r_fileSize :: nat
  r_downloadUrl :: string

text \<open>The progress values of the two stages, as the stream handlers compute them.\<close>

definition ytdlp_progress :: "nat \<Rightarrow> action" where
  "ytdlp_progress pct = OnProgress (min 50 (real pct * 0.5)) ''Downloading video...''"

definition ffmpeg_progress :: "(nat \<times> nat) list \<Rightarrow> action list" where
  "ffmpeg_progress ts =
     map (\<lambda>(cur, total). OnProgress (min 95 (50 + (real cur / real total) * 45)) ''Processing video...'')
       (filter (\<lambda>(cur, total). total > 0) ts)"

text \<open>
  The \<^verbatim>\<open>try\<close> block: the result (\<open>Inl\<close> the message of the error thrown) and the
  actions performed. The transform stage is entered on the test
  \<^verbatim>\<open>removeWatermark || format !== 'mp4'\<close>; otherwise the fetched file is renamed.
\<close>

definition try_block ::
  "world \<Rightarrow> string \<Rightarrow> string \<Rightarrow> string \<Rightarrow> bool \<Rightarrow> string \<Rightarrow> string \<Rightarrow> string \<Rightarrow>
   (string + dl_result) \<times> action list" where
  "try_block w jobId url quality removeWatermark fmt processingPath outputPath =
     (case mkdir_fails w of
        Some e \<Rightarrow> (Inl e, [Mkdir processingPath])
      | None \<Rightarrow>
          (let log1 = [Mkdir processingPath,
                       LogInfo (''Starting download for job '' @ jobId @ '': '' @ url),
                       OnProgress 10 ''Initializing download...'',
                       YtDlp (ytDlpArgs url processingPath quality)]
                      @ map ytdlp_progress (ytdlp_percents w)
           in case ytdlp_result w of
                Inl e \<Rightarrow> (Inl e, log1)
              | Inr rawVideoPath \<Rightarrow>
                  (let (failure, log2) =
                         (if removeWatermark \<or> fmt \<noteq> ''mp4''
                          then (ffmpeg_fails w,
                                [OnProgress 60 ''Processing video...'',
                                 FFmpeg (ffmpegArgs rawVideoPath outputPath removeWatermark fmt)]
                                @ ffmpeg_progress (ffmpeg_times w))
                          else (rename_fails w, [Rename rawVideoPath outputPath]))
                   in case failure of
                        Some e \<Rightarrow> (Inl e, log1 @ log2)
                      | None \<Rightarrow>
                          (let log3 = log1 @ log2 @
                                 [OnProgress 100 ''Download complete!'', Stat outputPath]
                           in case stat_result w of
                                Inl e \<Rightarrow> (Inl e, log3)
                              | Inr sz \<Rightarrow>
                                  (Inr \<lparr>success = True, filePath = outputPath, r_fileSize = sz,
                                        r_downloadUrl = ''/downloads/'' @ jobId @ ''.'' @ fmt\<rparr>,
                                   log3 @ [LogInfo (''Successfully processed video for job '' @ jobId)])))))"

text \<open>The \<^verbatim>\<open>catch\<close> block logs and rethrows.\<close>

definition catch_block :: "string \<Rightarrow> (string + dl_result) \<Rightarrow> action list" where
  "catch_block jobId r =
     (case r of
        Inl e \<Rightarrow> [LogError (''Failed to process video for job '' @ jobId @ '': '' @ e)]
      | Inr _ \<Rightarrow> [])"

text \<open>
  The \<^verbatim>\<open>finally\<close> block removes the scratch directory with
  \<^verbatim>\<open>fs.rm(processingPath, {recursive: true, force: true})\<close> inside its own \<^verbatim>\<open>try\<close>; a
  rejection is caught and logged as a warning.
\<close>

definition finally_block :: "world \<Rightarrow> string \<Rightarrow> action list" where
  "finally_block w processingPath =
     Rm processingPath True True #
     (case rm_fails w of
        None \<Rightarrow> []
      | Some e \<Rightarrow> [LogWarn (''Failed to cleanup processing directory: '' @ e)])"

text \<open>The destructuring defaults of the \<^verbatim>\<open>options\<close> argument.\<close>

definition quality_of :: "dl_options \<Rightarrow> string" where
  "quality_of options = (case opt_quality options of None \<Rightarrow> ''best'' | Some q \<Rightarrow> q)"

definition removeWatermark_of :: "dl_options \<Rightarrow> bool" where
  "removeWatermark_of options = (case opt_removeWatermark options of None \<Rightarrow> True | Some b \<Rightarrow> b)"

definition format_of :: "dl_options \<Rightarrow> string" where
  "format_of options = (case opt_format options of None \<Rightarrow> ''mp4'' | Some f \<Rightarrow> f)"

definition processingPath_of :: "string \<Rightarrow> string" where
  "processingPath_of jobId = join PROCESSING_DIR jobId"

definition outputPath_of :: "string \<Rightarrow> string \<Rightarrow> string" where
  "outputPath_of jobId fmt = join DOWNLOADS_DIR (jobId @ ''.'' @ fmt)"

definition downloadAndProcessVideo ::
  "world \<Rightarrow> string \<Rightarrow> string \<Rightarrow> dl_options \<Rightarrow> (string + dl_result) \<times> action list" where
  "downloadAndProcessVideo w jobId url options =
     (let quality = quality_of options;
          removeWatermark = removeWatermark_of options;
          fmt = format_of options;
          processingPath = processingPath_of jobId;
          outputPath = outputPath_of jobId fmt;
          (r, acts) = try_block w jobId url quality removeWatermark fmt processingPath outputPath
      in (r, acts @ catch_block jobId r @ finally_block w processingPath))"

text \<open>Whether a run invoked the transcode process, and whether it relocated a file.\<close>

fun is_FFmpeg :: "action \<Rightarrow> bool" where
  "is_FFmpeg (FFmpeg args) = True"
| "is_FFmpeg _ = False"

fun is_Rename :: "action \<Rightarrow> bool" where
  "is_Rename (Rename src dst) = True"
| "is_Rename _ = False"

definition transform_invoked :: "action list \<Rightarrow> bool" where
  "transform_invoked acts = list_ex is_FFmpeg acts"

definition relocated :: "action list \<Rightarrow> bool" where
  "relocated acts = list_ex is_Rename acts"

text \<open>
  The condition of the transform stage as the specification words it: watermark removal
  is requested, or the requested format differs from the container of the fetched file
  (the extension of its path).
\<close>

definition extname :: "string \<Rightarrow> string" where
  "extname path = rev (takeWhile (\<lambda>c. c \<noteq> CHR ''.'') (rev path))"

definition spec_transform_needed :: "bool \<Rightarrow> string \<Rightarrow> string \<Rightarrow> bool" where
  "spec_transform_needed removeWatermark fmt rawVideoPath =
     (removeWatermark \<or> fmt \<noteq> extname rawVideoPath)"

section \<open>Job Store and Job Runner (routes/video.js, services/jobQueue.js)\<close>

subsection \<open>Data\<close>

text \<open>The five values the \<^verbatim>\<open>status\<close> field of a Job Store record takes.\<close>

datatype job_status = Queued | Processing | Completed | Failed | Cancelled

text \<open>
  A record of the Job Store, the map \<^verbatim>\<open>jobs\<close> of routes/video.js. Fields that are
  set only later in the life of a job are optional. Times are milliseconds.
\<close>

record job =
  job_id :: string
  url :: string
  platform :: string
  quality :: string
  removeWatermark :: bool
  format :: string
  status :: job_status
  progress :: real
  message :: "string option"
  createdAt :: int
  updatedAt :: int
  clientIP :: string
  downloadUrl :: "string option"
  fileSize :: "nat option"
  completedAt :: "int option"
  failedAt :: "int option"
  error :: "string option"

text \<open>
  A Work Item: the \<^verbatim>\<open>job\<close> object \<^verbatim>\<open>JobQueue.add\<close> builds, with its \<^verbatim>\<open>data\<close>
  and \<^verbatim>\<open>options\<close>. An option key that is absent is \<open>None\<close>.
\<close>

record job_data =
  jobId :: string
  d_url :: string
  d_platform :: string
  d_quality :: string
  d_removeWatermark :: bool
  d_format :: string

record backoff_options =
  b_type :: string
  b_delay :: "nat option"

record job_options =
  attempts :: "nat option"
  delay :: "nat option"
  removeOnComplete :: "nat option"
  removeOnFail :: "nat option"
  backoff :: "backoff_options option"

record queue_job =
  qj_id :: string
  data :: job_data
  options :: job_options
  attempt :: nat
  qj_createdAt :: int
  qj_status :: string

text \<open>A callback registered with \<^verbatim>\<open>setTimeout\<close> and not yet run: the retry of a job.\<close>

record timer =
  t_delay :: nat
  t_data :: job_data
  t_options :: job_options

text \<open>
  The state both modules share: the Job Store, the queues of the \<^verbatim>\<open>JobQueue\<close>
  instance, its flag \<^verbatim>\<open>isProcessing\<close>, the pending timers, and \<open>running\<close>: the frame
  of \<^verbatim>\<open>processQueue\<close> suspended at \<^verbatim>\<open>await this.processJob(job)\<close>, with the name of
  the queue it drains and the job in flight.
\<close>

record sys =
  jobs :: "string \<rightharpoonup> job"
  queues :: "string \<rightharpoonup> queue_job list"
  isProcessing :: bool
  running :: "(string \<times> queue_job) option"
  timers :: "timer list"

definition init_sys :: sys where
  "init_sys = \<lparr>jobs = Map.empty, queues = Map.empty, isProcessing = False, running = None,
               timers = []\<rparr>"

text \<open>The one queue name the routes and the retry callback use.\<close>

definition processVideo :: string where
  "processVideo = ''processVideo''"

subsection \<open>JavaScript helpers\<close>

text \<open>\<^verbatim>\<open>v || d\<close> on an optional number: absent and 0 are falsy.\<close>

definition js_or :: "nat option \<Rightarrow> nat \<Rightarrow> nat" where
  "js_or v d = (case v of None \<Rightarrow> d | Some n \<Rightarrow> if n = 0 then d else n)"

text \<open>\<^verbatim>\<open>Date.now().toString()\<close>: the decimal digits of an integer.\<close>

fun toString_nat :: "nat \<Rightarrow> string" where
  "toString_nat n =
     (if n < 10 then [digits09 ! n] else toString_nat (n div 10) @ [digits09 ! (n mod 10)])"

definition toString_int :: "int \<Rightarrow> string" where
  "toString_int i = (if i < 0 then ''-'' @ toString_nat (nat (- i)) else toString_nat (nat i))"

subsection \<open>JobQueue\<close>

text \<open>
  The blocks of assignments to a Job Store record: at the start of an attempt, in the
  progress callback, on success, on the last failure, and in the cancel route.
\<close>

definition mark_processing :: "int \<Rightarrow> job \<Rightarrow> job" where
  "mark_processing now jobData = jobData\<lparr>status := Processing, progress := 5, updatedAt := now\<rparr>"

definition mark_progress :: "real \<Rightarrow> string \<Rightarrow> int \<Rightarrow> job \<Rightarrow> job" where
  "mark_progress p m now jobData = jobData\<lparr>progress := p, message := Some m, updatedAt := now\<rparr>"

definition mark_completed :: "dl_result \<Rightarrow> int \<Rightarrow> job \<Rightarrow> job" where
  "mark_completed result now jobData =
     jobData\<lparr>status := Completed, progress := 100,
             downloadUrl := Some (r_downloadUrl result),
             fileSize := Some (r_fileSize result),
             completedAt := Some now, updatedAt := now\<rparr>"

definition mark_failed :: "string \<Rightarrow> int \<Rightarrow> job \<Rightarrow> job" where
  "mark_failed msg now jobData =
     jobData\<lparr>status := Failed, error := Some msg, failedAt := Some now, updatedAt := now\<rparr>"

definition mark_cancelled :: "int \<Rightarrow> job \<Rightarrow> job" where
  "mark_cancelled now jobData = jobData\<lparr>status := Cancelled, updatedAt := now\<rparr>"

text \<open>
  Every write of the runner to the Job Store is guarded by \<^verbatim>\<open>jobs.has(jobId)\<close> and
  by nothing else.
\<close>

definition update_job :: "sys \<Rightarrow> string \<Rightarrow> (job \<Rightarrow> job) \<Rightarrow> sys" where
  "update_job st jid f =
     (case jobs st jid of
        None \<Rightarrow> st
      | Some jobData \<Rightarrow> st\<lparr>jobs := (jobs st)(jid \<mapsto> f jobData)\<rparr>)"

text \<open>
  \<^verbatim>\<open>processJob\<close> up to its \<^verbatim>\<open>await\<close>: the attempt counter of the Work Item is
  incremented and the Job Store record, when there is one, is marked as processing.
\<close>

definition begin_attempt :: "queue_job \<Rightarrow> queue_job" where
  "begin_attempt job = job\<lparr>attempt := attempt job + 1, qj_status := ''processing''\<rparr>"

definition processJob_begin :: "sys \<Rightarrow> queue_job \<Rightarrow> int \<Rightarrow> sys \<times> queue_job" where
  "processJob_begin st job now =
     (update_job st (jobId (data job)) (mark_processing now), begin_attempt job)"

text \<open>The progress callback \<^verbatim>\<open>onProgress\<close> that \<^verbatim>\<open>processJob\<close> hands to the processor.\<close>

definition onProgress :: "sys \<Rightarrow> string \<Rightarrow> real \<Rightarrow> string \<Rightarrow> int \<Rightarrow> sys" where
  "onProgress st jid p m now = update_job st jid (mark_progress p m now)"

text \<open>The arguments \<^verbatim>\<open>processJob\<close> passes to \<^verbatim>\<open>downloadAndProcessVideo\<close>.\<close>

definition processor_options :: "queue_job \<Rightarrow> dl_options" where
  "processor_options job =
     \<lparr>opt_quality = Some (d_quality (data job)),
      opt_removeWatermark = Some (d_removeWatermark (data job)),
      opt_format = Some (d_format (data job))\<rparr>"

text \<open>
  The call \<^verbatim>\<open>downloadAndProcessVideo(jobId, url, {quality, removeWatermark, format,
  onProgress})\<close> of \<^verbatim>\<open>processJob\<close>, in a given outside world.
\<close>

definition run_processor :: "world \<Rightarrow> queue_job \<Rightarrow> (string + dl_result) \<times> action list" where
  "run_processor w job =
     downloadAndProcessVideo w (jobId (data job)) (d_url (data job)) (processor_options job)"

text \<open>\<^verbatim>\<open>processJob\<close> after the processor has returned a result.\<close>

definition processJob_resolve :: "sys \<Rightarrow> queue_job \<Rightarrow> dl_result \<Rightarrow> int \<Rightarrow> sys" where
  "processJob_resolve st job result now =
     update_job st (jobId (data job)) (mark_completed result now)"

text \<open>
  The \<^verbatim>\<open>catch\<close> block of \<^verbatim>\<open>processJob\<close>. The attempt counter was incremented before
  the processor ran, so it is at least 1 here and \<^verbatim>\<open>Math.pow(2, job.attempt - 1)\<close> is a
  power of two with a natural exponent.
\<close>

definition retry_allowed :: "queue_job \<Rightarrow> bool" where
  "retry_allowed job =
     (case attempts (options job) of None \<Rightarrow> False | Some a \<Rightarrow> attempt job < a)"

definition backoffDelay :: "queue_job \<Rightarrow> nat" where
  "backoffDelay job =
     (let dly = (case backoff (options job) of None \<Rightarrow> 5000 | Some b \<Rightarrow> js_or (b_delay b) 5000)
      in dly * 2 ^ (attempt job - 1))"

definition processJob_reject :: "sys \<Rightarrow> queue_job \<Rightarrow> string \<Rightarrow> int \<Rightarrow> sys" where
  "processJob_reject st job msg now =
     (if retry_allowed job
      then st\<lparr>timers := timers st @
             [\<lparr>t_delay = backoffDelay job, t_data = data job, t_options = options job\<rparr>]\<rparr>
      else update_job st (jobId (data job)) (mark_failed msg now))"

text \<open>
  The loop \<^verbatim>\<open>while (queue.length > 0)\<close> of \<^verbatim>\<open>processQueue\<close>, from its test to the
  next \<^verbatim>\<open>await\<close>: an empty (or missing) queue ends the drain and clears the flag;
  otherwise the first job is shifted off and started.
\<close>

definition drain :: "sys \<Rightarrow> string \<Rightarrow> int \<Rightarrow> sys" where
  "drain st queueName now =
     (case queues st queueName of
        Some (job # rest) \<Rightarrow>
          (let st1 = st\<lparr>queues := (queues st)(queueName \<mapsto> rest)\<rparr>;
               (st2, job') = processJob_begin st1 job now
           in st2\<lparr>running := Some (queueName, job')\<rparr>)
      | _ \<Rightarrow> st\<lparr>isProcessing := False, running := None\<rparr>)"

definition processQueue :: "sys \<Rightarrow> string \<Rightarrow> int \<Rightarrow> sys" where
  "processQueue st queueName now =
     (if isProcessing st then st else drain (st\<lparr>isProcessing := True\<rparr>) queueName now)"

text \<open>
  \<^verbatim>\<open>add(queueName, data, options)\<close>. The spread \<^verbatim>\<open>...options\<close> comes last in the object
  literal, so a key the caller gave keeps the caller's value and the \<^verbatim>\<open>||\<close> default
  stands only for an absent key. The new Work Item always starts with \<^verbatim>\<open>attempt: 0\<close>.
\<close>

definition spread_default :: "nat option \<Rightarrow> nat \<Rightarrow> nat option" where
  "spread_default v d = (case v of Some n \<Rightarrow> Some n | None \<Rightarrow> Some (js_or v d))"

definition new_job :: "job_data \<Rightarrow> job_options \<Rightarrow> int \<Rightarrow> queue_job" where
  "new_job d opts now =
     \<lparr>qj_id = (if jobId d = [] then toString_int now else jobId d),
      data = d,
      options = \<lparr>attempts = spread_default (attempts opts) 1,
                 delay = spread_default (delay opts) 0,
                 removeOnComplete = spread_default (removeOnComplete opts) 5,
                 removeOnFail = spread_default (removeOnFail opts) 5,
                 backoff = backoff opts\<rparr>,
      attempt = 0,
      qj_createdAt = now,
      qj_status = ''waiting''\<rparr>"

definition add :: "sys \<Rightarrow> string \<Rightarrow> job_data \<Rightarrow> job_options \<Rightarrow> int \<Rightarrow> sys" where
  "add st queueName d opts now =
     (let q = (case queues st queueName of None \<Rightarrow> [] | Some js \<Rightarrow> js);
          st1 = st\<lparr>queues := (queues st)(queueName \<mapsto> q @ [new_job d opts now])\<rparr>
      in if \<not> isProcessing st1 then processQueue st1 queueName now else st1)"

text \<open>
  The suspended frame of \<^verbatim>\<open>processQueue\<close> resumes when the processor settles:
  \<^verbatim>\<open>processJob\<close> finishes with the result or the error, and the loop goes on.
\<close>

definition settle_resolve :: "sys \<Rightarrow> dl_result \<Rightarrow> int \<Rightarrow> sys" where
  "settle_resolve st result now =
     (case running st of
        None \<Rightarrow> st
      | Some (queueName, job) \<Rightarrow> drain (processJob_resolve st job result now) queueName now)"

definition settle_reject :: "sys \<Rightarrow> string \<Rightarrow> int \<Rightarrow> sys" where
  "settle_reject st msg now =
     (case running st of
        None \<Rightarrow> st
      | Some (queueName, job) \<Rightarrow> drain (processJob_reject st job msg now) queueName now)"

text \<open>
  A pending timer runs its callback
  \<^verbatim>\<open>this.add('processVideo', job.data, job.options)\<close>.
\<close>

definition timer_fire :: "sys \<Rightarrow> nat \<Rightarrow> int \<Rightarrow> sys" where
  "timer_fire st i now =
     (if i < length (timers st)
      then (let t = timers st ! i;
                st1 = st\<lparr>timers := take i (timers st) @ drop (Suc i) (timers st)\<rparr>
            in add st1 processVideo (t_data t) (t_options t) now)
      else st)"

text \<open>\<^verbatim>\<open>JobQueue.cleanup\<close>, run every hour: old completed and failed records go.\<close>

definition queue_cleanup :: "sys \<Rightarrow> int \<Rightarrow> sys" where
  "queue_cleanup st now =
     st\<lparr>jobs := (\<lambda>k. case jobs st k of
                       None \<Rightarrow> None
                     | Some j \<Rightarrow>
                         if now - createdAt j > 24 * 60 * 60 * 1000 \<and>
                            (status j = Completed \<or> status j = Failed)
                         then None else Some j)\<rparr>"

subsection \<open>Routes\<close>

text \<open>
  The body of \<^verbatim>\<open>POST /download\<close>; an omitted optional field is \<open>None\<close>. The
  validation chain uses express-validator's \<^verbatim>\<open>isURL\<close> and, through \<^verbatim>\<open>validateUrl\<close>,
  the runtime's URL parser; both are outside the repository and are parameters.
\<close>

record download_body =
  b_url :: string
  b_quality :: "string option"
  b_removeWatermark :: "bool option"
  b_format :: "string option"

record validators =
  isURL :: "string \<Rightarrow> bool"
  url_parses :: "string \<Rightarrow> bool"

definition body_valid :: "validators \<Rightarrow> download_body \<Rightarrow> bool" where
  "body_valid v b =
     (isURL v (b_url b) \<and> validateUrl (url_parses v) (b_url b) \<and>
      (case b_quality b of
         None \<Rightarrow> True
       | Some q \<Rightarrow> q \<in> set [''360p'', ''720p'', ''1080p'', ''original'', ''best'']) \<and>
      (case b_format b of
         None \<Rightarrow> True
       | Some f \<Rightarrow> f \<in> set [''mp4'', ''webm'', ''avi'']))"

text \<open>The options the route gives every Work Item.\<close>

definition route_options :: job_options where
  "route_options =
     \<lparr>attempts = Some 3, delay = None, removeOnComplete = Some 10, removeOnFail = Some 5,
      backoff = Some \<lparr>b_type = ''exponential'', b_delay = Some 5000\<rparr>\<rparr>"

text \<open>The destructuring defaults of the request body.\<close>

definition body_quality :: "download_body \<Rightarrow> string" where
  "body_quality b = (case b_quality b of None \<Rightarrow> ''best'' | Some x \<Rightarrow> x)"

definition body_removeWatermark :: "download_body \<Rightarrow> bool" where
  "body_removeWatermark b = (case b_removeWatermark b of None \<Rightarrow> True | Some x \<Rightarrow> x)"

definition body_format :: "download_body \<Rightarrow> string" where
  "body_format b = (case b_format b of None \<Rightarrow> ''mp4'' | Some x \<Rightarrow> x)"

text \<open>The Job Store record and the queue payload the route builds.\<close>

definition job_record :: "download_body \<Rightarrow> string \<Rightarrow> string \<Rightarrow> int \<Rightarrow> job" where
  "job_record b jid ip now =
     \<lparr>job_id = jid, url = b_url b, platform = detectPlatform (b_url b),
      quality = body_quality b, removeWatermark = body_removeWatermark b,
      format = body_format b, status = Queued, progress = 0, message = None,
      createdAt = now, updatedAt = now, clientIP = ip, downloadUrl = None,
      fileSize = None, completedAt = None, failedAt = None, error = None\<rparr>"

definition job_payload :: "download_body \<Rightarrow> string \<Rightarrow> job_data" where
  "job_payload b jid =
     \<lparr>jobId = jid, d_url = b_url b, d_platform = detectPlatform (b_url b),
      d_quality = body_quality b, d_removeWatermark = body_removeWatermark b,
      d_format = body_format b\<rparr>"

text \<open>
  \<^verbatim>\<open>POST /download\<close>: the HTTP status and the new state. \<open>jid\<close> is the identifier
  \<^verbatim>\<open>uuidv4()\<close> returns, \<open>ip\<close> the client address.
\<close>

definition postDownload ::
  "validators \<Rightarrow> sys \<Rightarrow> download_body \<Rightarrow> string \<Rightarrow> string \<Rightarrow> int \<Rightarrow> nat \<times> sys" where
  "postDownload v st b jid ip now =
     (if \<not> body_valid v b then (400, st)
      else (200, add (st\<lparr>jobs := (jobs st)(jid \<mapsto> job_record b jid ip now)\<rparr>)
                   processVideo (job_payload b jid) route_options now))"

text \<open>\<^verbatim>\<open>DELETE /job/:jobId\<close>: the HTTP status and the new state.\<close>

definition deleteJob :: "sys \<Rightarrow> string \<Rightarrow> int \<Rightarrow> nat \<times> sys" where
  "deleteJob st jid now =
     (case jobs st jid of
        None \<Rightarrow> (404, st)
      | Some job \<Rightarrow>
          if status job = Processing \<or> status job = Queued
          then (200, st\<lparr>jobs := (jobs st)(jid \<mapsto> mark_cancelled now job)\<rparr>)
          else (200, st\<lparr>jobs := (jobs st)(jid := None)\<rparr>))"

subsection \<open>Runs of the system\<close>

text \<open>
  The job identifiers the runner still holds: those of the Work Items waiting in the
  queue, of the pending retries and of the job in flight. The routes and the retry
  callback name one queue only, \<^verbatim>\<open>processVideo\<close>.
\<close>

definition waiting :: "sys \<Rightarrow> queue_job list" where
  "waiting st = (case queues st processVideo of None \<Rightarrow> [] | Some q \<Rightarrow> q)"

definition in_flight :: "sys \<Rightarrow> string list" where
  "in_flight st = (case running st of None \<Rightarrow> [] | Some (queueName, job) \<Rightarrow> [jobId (data job)])"

definition tokens :: "sys \<Rightarrow> string list" where
  "tokens st =
     map (\<lambda>job. jobId (data job)) (waiting st) @ map (\<lambda>t. jobId (t_data t)) (timers st) @
     in_flight st"

text \<open>
  One event of the event loop. A submission carries a fresh identifier (\<^verbatim>\<open>uuidv4\<close>):
  one that neither the Job Store nor the runner holds. The processor may call the
  progress callback and settle, with a result or an error, at any time while a job is in
  flight; a timer may fire at any time; requests may arrive at any time.
\<close>

inductive step :: "validators \<Rightarrow> sys \<Rightarrow> sys \<Rightarrow> bool" for v :: validators where
  submit: "jid \<notin> dom (jobs st) \<Longrightarrow> jid \<notin> set (tokens st) \<Longrightarrow>
           step v st (snd (postDownload v st b jid ip now))"
| progress: "step v st (onProgress st jid p m now)"
| resolve: "running st = Some (queueName, job) \<Longrightarrow> step v st (settle_resolve st result now)"
| reject: "running st = Some (queueName, job) \<Longrightarrow> step v st (settle_reject st msg now)"
| fire: "i < length (timers st) \<Longrightarrow> step v st (timer_fire st i now)"
| delete: "step v st (snd (deleteJob st jid now))"
| cleanup: "step v st (queue_cleanup st now)"

inductive reachable :: "validators \<Rightarrow> sys \<Rightarrow> bool" for v :: validators where
  initial: "reachable v init_sys"
| after: "reachable v st \<Longrightarrow> step v st st' \<Longrightarrow> reachable v st'"

text \<open>
  The status changes the specification allows, and those the code performs: the runner
  writes \<^verbatim>\<open>processing\<close>, \<^verbatim>\<open>completed\<close> and \<^verbatim>\<open>failed\<close> without reading the
  status, so a cancelled record is overwritten by the job it belongs to.
\<close>

definition spec_transition :: "job_status \<Rightarrow> job_status \<Rightarrow> bool" where
  "spec_transition a b =
     (a = b \<or>
      (a = Queued \<and> b = Processing) \<or>
      (a = Processing \<and> (b = Completed \<or> b = Failed)) \<or>
      ((a = Queued \<or> a = Processing) \<and> b = Cancelled))"

definition code_transition :: "job_status \<Rightarrow> job_status \<Rightarrow> bool" where
  "code_transition a b =
     (spec_transition a b \<or>
      (a = Cancelled \<and> (b = Processing \<or> b = Completed \<or> b = Failed)))"

definition terminal :: "job_status \<Rightarrow> bool" where
  "terminal s = (s = Completed \<or> s = Failed \<or> s = Cancelled)"

text \<open>
  What holds of every state a run reaches: the frame of \<^verbatim>\<open>processQueue\<close> drains the
  queue \<^verbatim>\<open>processVideo\<close> and exists exactly while the flag is set; the runner holds
  no identifier twice; it holds no identifier of a completed or failed record; and the
  record of the job in flight is processing or cancelled.
\<close>

definition sys_inv :: "sys \<Rightarrow> bool" where
  "sys_inv st =
     ((\<forall>queueName job. running st = Some (queueName, job) \<longrightarrow> queueName = processVideo) \<and>
      (isProcessing st \<longleftrightarrow> running st \<noteq> None) \<and>
      distinct (tokens st) \<and>
      (\<forall>jid j. jobs st jid = Some j \<longrightarrow> status j = Completed \<or> status j = Failed \<longrightarrow>
         jid \<notin> set (tokens st)) \<and>
      (\<forall>jid j. jid \<in> set (in_flight st) \<longrightarrow> jobs st jid = Some j \<longrightarrow>
         status j = Processing \<or> status j = Cancelled))"

subsection \<open>A processor that always fails\<close>

text \<open>
  One round of a job whose processing fails: the processor rejects, and the retry timer
  the runner has set, if any, fires. \<open>failing_run n\<close> is \<open>n\<close> such rounds.
\<close>

definition fail_and_retry :: "string \<Rightarrow> int \<Rightarrow> sys \<Rightarrow> sys" where
  "fail_and_retry msg now st = timer_fire (settle_reject st msg now) 0 now"

fun failing_run :: "nat \<Rightarrow> string \<Rightarrow> int \<Rightarrow> sys \<Rightarrow> sys" where
  "failing_run 0 msg now st = st"
| "failing_run (Suc n) msg now st = failing_run n msg now (fail_and_retry msg now st)"

subsection \<open>Example runs\<close>

definition scn_validators :: validators where
  "scn_validators = \<lparr>isURL = (\<lambda>u. True), url_parses = (\<lambda>u. True)\<rparr>"

definition scn_body :: download_body where
  "scn_body = \<lparr>b_url = ''https://www.tiktok.com/@user/video/123456'', b_quality = None,
               b_removeWatermark = None, b_format = None\<rparr>"

definition scn_result :: dl_result where
  "scn_result = \<lparr>success = True, filePath = ''temp/downloads/job1.mp4'', r_fileSize = 4096,
                 r_downloadUrl = ''/downloads/job1.mp4''\<rparr>"

text \<open>A job is submitted to the idle system; the runner starts it at once.\<close>

definition scn_submitted :: sys where
  "scn_submitted = snd (postDownload scn_validators init_sys scn_body ''job1'' ''203.0.113.7'' 1000)"

text \<open>It is cancelled while the processor runs, and then the processor returns.\<close>

definition scn_cancelled :: sys where
  "scn_cancelled = snd (deleteJob scn_submitted ''job1'' 2000)"

definition scn_overwritten :: sys where
  "scn_overwritten = settle_resolve scn_cancelled scn_result 3000"

text \<open>Or it is left alone, and the processor returns.\<close>

definition scn_completed :: sys where
  "scn_completed = settle_resolve scn_submitted scn_result 3000"

text \<open>
  The state of a first attempt in flight on an otherwise idle runner: the Work Item of
  the job, with the route's retry policy and the attempt counter at 1, is running; no
  job waits and no timer is pending; the record of the job is processing, without error.
\<close>

definition first_attempt :: "sys \<Rightarrow> job_data \<Rightarrow> bool" where
  "first_attempt st d =
     (case running st of
        None \<Rightarrow> False
      | Some (queueName, job) \<Rightarrow>
          queueName = processVideo \<and> data job = d \<and> attempt job = 1 \<and>
          attempts (options job) = Some 3 \<and>
          backoff (options job) = Some \<lparr>b_type = ''exponential'', b_delay = Some 5000\<rparr> \<and>
          isProcessing st \<and> waiting st = [] \<and> timers st = [] \<and>
          map_option status (jobs st (jobId d)) = Some Processing \<and>
          map_option error (jobs st (jobId d)) = Some None)"

text \<open>A run of the processor in which every external step succeeds.\<close>

definition scn_world :: world where
  "scn_world = \<lparr>mkdir_fails = None, ytdlp_percents = [50, 100],
                ytdlp_result = Inr ''temp/processing/job1/video.mp4'',
                ffmpeg_times = [(5, 10), (10, 10)], ffmpeg_fails = None, rename_fails = None,
                stat_result = Inr 4096, rm_fails = None\<rparr>"

text \<open>A run of the processor in which the fetch stage fails.\<close>

definition scn_fetch_fails :: world where
  "scn_fetch_fails = \<lparr>mkdir_fails = None, ytdlp_percents = [],
                      ytdlp_result = Inl ''yt-dlp exited with code 1'',
                      ffmpeg_times = [], ffmpeg_fails = None, rename_fails = None,
                      stat_result = Inr 4096, rm_fails = None\<rparr>"

section \<open>Retention Sweeper (cleanupService.js)\<close>

subsection \<open>The file system under the temp directory\<close>

text \<open>
  What the sweeper sees of the file system: a tree of directories and files, each with
  its modification time in milliseconds (\<^verbatim>\<open>fileStat.mtime.getTime()\<close>), a file with its
  size in bytes. A directory lists its entries by name. A path is the list of names from
  \<^verbatim>\<open>TEMP_DIR\<close> down. No pass reads the modification time of a directory after it has
  removed one of its entries, so removals leave the times of the parents as they are.
\<close>

datatype node =
    File (mtime: int) (fsize: nat)
  | Dir (mtime: int) (entries: "(string \<times> node) list")

fun is_Dir :: "node \<Rightarrow> bool" where
  "is_Dir (Dir m es) = True"
| "is_Dir (File m s) = False"

fun lookup :: "node option \<Rightarrow> string list \<Rightarrow> node option" where
  "lookup None p = None"
| "lookup (Some nd) [] = Some nd"
| "lookup (Some (File m s)) (n # p) = None"
| "lookup (Some (Dir m es)) (n # p) = lookup (map_of es n) p"

definition remove_entry :: "string \<Rightarrow> (string \<times> node) list \<Rightarrow> (string \<times> node) list" where
  "remove_entry n es = filter (\<lambda>e. fst e \<noteq> n) es"

definition replace_entry ::
  "string \<Rightarrow> node \<Rightarrow> (string \<times> node) list \<Rightarrow> (string \<times> node) list" where
  "replace_entry n nd es = map (\<lambda>e. if fst e = n then (n, nd) else e) es"

text \<open>
  The calls of \<^verbatim>\<open>fs\<close> the sweeper makes. Beyond what the tree dictates (a missing
  entry, a file where a directory is expected), a call may fail for reasons outside the
  tree, such as permissions: \<open>io op path\<close> tells whether the call \<open>op\<close> on
  \<open>path\<close> throws.
\<close>

datatype fs_op = Readdir | StatOp | RmOp | Unlink | Rmdir

type_synonym io_errors = "fs_op \<Rightarrow> string list \<Rightarrow> bool"

definition io_ok :: "io_errors \<Rightarrow> bool" where
  "io_ok io = (\<forall>op p. \<not> io op p)"

subsection \<open>cleanupDirectory\<close>

text \<open>
  The loop \<^verbatim>\<open>for (const file of files)\<close> over the names \<^verbatim>\<open>readdir\<close> returned, with
  the entries of the directory as they currently are, the count of deletions, the bytes
  freed and the paths warned about. An entry is deleted on \<^verbatim>\<open>age > maxAge\<close>: a
  directory with \<^verbatim>\<open>fs.rm\<close> (recursive), a file with \<^verbatim>\<open>fs.unlink\<close> after its size
  has been added to \<^verbatim>\<open>bytesFreed\<close>. An error on one entry is caught and logged, and
  the loop goes on.
\<close>

record sweep =
  sw_entries :: "(string \<times> node) list"
  sw_deleted :: nat
  sw_bytes :: nat
  sw_warnings :: "string list list"

fun cleanup_file :: "io_errors \<Rightarrow> string list \<Rightarrow> int \<Rightarrow> int \<Rightarrow> string \<Rightarrow> sweep \<Rightarrow> sweep" where
  "cleanup_file io dir maxAge now file s =
     (let filePath = dir @ [file]
      in case (if io StatOp filePath then None else map_of (sw_entries s) file) of
           None \<Rightarrow> s\<lparr>sw_warnings := sw_warnings s @ [filePath]\<rparr>
         | Some fileStat \<Rightarrow>
             if now - mtime fileStat > maxAge
             then (if is_Dir fileStat
                   then (if io RmOp filePath
                         then s\<lparr>sw_warnings := sw_warnings s @ [filePath]\<rparr>
                         else s\<lparr>sw_entries := remove_entry file (sw_entries s),
                                sw_deleted := sw_deleted s + 1\<rparr>)
                   else (if io Unlink filePath
                         then s\<lparr>sw_bytes := sw_bytes s + fsize fileStat,
                                sw_warnings := sw_warnings s @ [filePath]\<rparr>
                         else s\<lparr>sw_entries := remove_entry file (sw_entries s),
                                sw_bytes := sw_bytes s + fsize fileStat,
                                sw_deleted := sw_deleted s + 1\<rparr>))
             else s)"

fun cleanup_files ::
  "io_errors \<Rightarrow> string list \<Rightarrow> int \<Rightarrow> int \<Rightarrow> string list \<Rightarrow> sweep \<Rightarrow> sweep" where
  "cleanup_files io dir maxAge now [] s = s"
| "cleanup_files io dir maxAge now (file # files) s =
     cleanup_files io dir maxAge now files (cleanup_file io dir maxAge now file s)"

text \<open>
  \<^verbatim>\<open>cleanupDirectory(dirPath, maxAge, stats)\<close> on the node at \<open>dirPath\<close>, if any: the
  node afterwards, the count returned, \<^verbatim>\<open>stats.bytesFreed\<close> and the warnings. When
  \<^verbatim>\<open>readdir\<close> throws, nothing is deleted and 0 is returned; the error is logged unless
  its code is \<^verbatim>\<open>ENOENT\<close>, the code of a missing directory.
\<close>

definition cleanupDirectory ::
  "io_errors \<Rightarrow> string list \<Rightarrow> int \<Rightarrow> int \<Rightarrow> node option \<Rightarrow> nat \<Rightarrow>
   node option \<times> nat \<times> nat \<times> string list list" where
  "cleanupDirectory io dirPath maxAge now nd bytes =
     (case nd of
        None \<Rightarrow> (None, 0, bytes, [])
      | Some (File m s) \<Rightarrow> (nd, 0, bytes, [dirPath])
      | Some (Dir m es) \<Rightarrow>
          if io Readdir dirPath then (nd, 0, bytes, [dirPath])
          else (let s = cleanup_files io dirPath maxAge now (map fst es)
                          \<lparr>sw_entries = es, sw_deleted = 0, sw_bytes = bytes, sw_warnings = []\<rparr>
                in (Some (Dir m (sw_entries s)), sw_deleted s, sw_bytes s, sw_warnings s)))"

subsection \<open>cleanupEmptyDirectories\<close>

text \<open>
  \<^verbatim>\<open>cleanupEmptyDirectories(dirPath)\<close> on a node: every subdirectory is cleaned first
  and then removed with \<^verbatim>\<open>rmdir\<close> if it is empty; files stay. Errors are swallowed.
\<close>

fun cleanupEmptyDirectories :: "io_errors \<Rightarrow> string list \<Rightarrow> node \<Rightarrow> node"
  and cleanupEmptyEntries ::
    "io_errors \<Rightarrow> string list \<Rightarrow> (string \<times> node) list \<Rightarrow> (string \<times> node) list" where
  "cleanupEmptyDirectories io dirPath (File m s) = File m s"
| "cleanupEmptyDirectories io dirPath (Dir m es) =
     (if io Readdir dirPath then Dir m es else Dir m (cleanupEmptyEntries io dirPath es))"
| "cleanupEmptyEntries io dirPath [] = []"
| "cleanupEmptyEntries io dirPath ((n, File m s) # rest) =
     (n, File m s) # cleanupEmptyEntries io dirPath rest"
| "cleanupEmptyEntries io dirPath ((n, Dir m es) # rest) =
     (let subDirPath = dirPath @ [n];
          sub = cleanupEmptyDirectories io subDirPath (Dir m es)
      in if \<not> io Readdir subDirPath \<and> entries sub = [] \<and> \<not> io Rmdir subDirPath
         then cleanupEmptyEntries io dirPath rest
         else (n, sub) # cleanupEmptyEntries io dirPath rest)"

subsection \<open>cleanup\<close>

text \<open>The two watched directories, children of \<^verbatim>\<open>TEMP_DIR\<close>, and their thresholds.\<close>

definition downloads :: string where
  "downloads = ''downloads''"

definition processing :: string where
  "processing = ''processing''"

definition DOWNLOADS_MAX_AGE :: int where
  "DOWNLOADS_MAX_AGE = 60 * 60 * 1000"

definition PROCESSING_MAX_AGE :: int where
  "PROCESSING_MAX_AGE = 30 * 60 * 1000"

text \<open>One call of \<^verbatim>\<open>cleanupDirectory\<close> on a child of the temp directory.\<close>

definition sweep_child ::
  "io_errors \<Rightarrow> string \<Rightarrow> int \<Rightarrow> int \<Rightarrow> node option \<Rightarrow> nat \<Rightarrow>
   node option \<times> nat \<times> nat \<times> string list list" where
  "sweep_child io child maxAge now temp bytes =
     (case temp of
        Some (Dir m es) \<Rightarrow>
          (case cleanupDirectory io [child] maxAge now (map_of es child) bytes of
             (Some nd, r) \<Rightarrow> (Some (Dir m (replace_entry child nd es)), r)
           | (None, r) \<Rightarrow> (temp, r))
      | _ \<Rightarrow> (temp, snd (cleanupDirectory io [child] maxAge now None bytes)))"

record cleanup_stats =
  downloadsDeleted :: nat
  processingDeleted :: nat
  bytesFreed :: nat

text \<open>
  One sweep pass, \<^verbatim>\<open>cleanup()\<close>: the downloads directory with its threshold of one
  hour, the processing directory with its threshold of thirty minutes, then the removal
  of empty directories under the temp directory. \<^verbatim>\<open>Date.now()\<close> is read once in each
  call of \<^verbatim>\<open>cleanupDirectory\<close>.
\<close>

definition cleanup :: "io_errors \<Rightarrow> int \<Rightarrow> int \<Rightarrow> node option \<Rightarrow> node option \<times> cleanup_stats" where
  "cleanup io nowD nowP temp =
     (let (temp1, dcount, bytes1, w1) = sweep_child io downloads DOWNLOADS_MAX_AGE nowD temp 0;
          (temp2, pcount, bytes2, w2) = sweep_child io processing PROCESSING_MAX_AGE nowP temp1 bytes1;
          temp3 = map_option (cleanupEmptyDirectories io []) temp2
      in (temp3, \<lparr>downloadsDeleted = dcount, processingDeleted = pcount, bytesFreed = bytes2\<rparr>))"

text \<open>
  The deletion rule as the specification words it: an immediate entry of a watched
  directory is gone after the pass exactly when its age exceeds the threshold.
\<close>

definition spec_deleted_iff_old ::
  "node option \<Rightarrow> node option \<Rightarrow> string \<Rightarrow> string \<Rightarrow> int \<Rightarrow> int \<Rightarrow> bool" where
  "spec_deleted_iff_old before after dir n maxAge now =
     (case lookup before [dir, n] of
        None \<Rightarrow> True
      | Some x \<Rightarrow> (lookup after [dir, n] = None) = (now - mtime x > maxAge))"

text \<open>What a sweep without errors leaves of a list of entries: those not older than the threshold.\<close>

definition swept :: "int \<Rightarrow> int \<Rightarrow> (string \<times> node) list \<Rightarrow> (string \<times> node) list" where
  "swept maxAge now es = filter (\<lambda>e. \<not> now - mtime (snd e) > maxAge) es"

text \<open>Whether a node is a file or holds a file at some depth.\<close>

fun has_file :: "node \<Rightarrow> bool"
  and any_file :: "(string \<times> node) list \<Rightarrow> bool" where
  "has_file (File m s) = True"
| "has_file (Dir m es) = any_file es"
| "any_file [] = False"
| "any_file ((n, x) # rest) = (has_file x \<or> any_file rest)"

subsection \<open>An example pass\<close>

text \<open>
  At time 10000000 the downloads directory holds a file 59 minutes old and one 61
  minutes old; the processing directory holds a file 31 minutes old and the empty
  scratch directory of a job, created one minute ago.
\<close>

definition no_errors :: io_errors where
  "no_errors = (\<lambda>op p. False)"

definition sweep_tree :: "node option" where
  "sweep_tree =
     Some (Dir 0
       [(''downloads'', Dir 0 [(''a.mp4'', File 6460000 100), (''b.mp4'', File 6340000 200)]),
        (''processing'', Dir 0 [(''old.part'', File 8140000 10), (''job1'', Dir 9940000 [])])])"

definition swept_tree :: "node option" where
  "swept_tree = fst (cleanup no_errors 10000000 10000000 sweep_tree)"

section \<open>Properties of the Media Processor helpers\<close>













text \<open>
  Claim C4. The quality-to-selector mapping is a total function on strings: the three
  bounded tiers map to their height-bounded selectors, and \<^verbatim>\<open>original\<close>,
  \<^verbatim>\<open>best\<close> and every other string map to the unconstrained selector \<^verbatim>\<open>best\<close>.
\<close>

theorem getYtDlpQualityFormat_mapping:
  "getYtDlpQualityFormat ''360p'' = ''best[height<=360]'' \<and>
   getYtDlpQualityFormat ''720p'' = ''best[height<=720]'' \<and>
   getYtDlpQualityFormat ''1080p'' = ''best[height<=1080]'' \<and>
   getYtDlpQualityFormat ''original'' = ''best'' \<and>
   getYtDlpQualityFormat ''best'' = ''best'' \<and>
   (\<forall>q. q \<noteq> ''360p'' \<and> q \<noteq> ''720p'' \<and> q \<noteq> ''1080p'' \<longrightarrow> getYtDlpQualityFormat q = ''best'')"
  by (simp add: getYtDlpQualityFormat_def)

theorem getYtDlpQualityFormat_mapping_witness:
  "''4K'' \<noteq> ''360p'' \<and> ''4K'' \<noteq> ''720p'' \<and> ''4K'' \<noteq> ''1080p'' \<and>
   getYtDlpQualityFormat ''4K'' = ''best''"
proof -
  from getYtDlpQualityFormat_mapping
  have *: "\<forall>q. q \<noteq> ''360p'' \<and> q \<noteq> ''720p'' \<and> q \<noteq> ''1080p'' \<longrightarrow>
      getYtDlpQualityFormat q = ''best''"
    by (elim conjE)
  from spec [OF *, of "''4K''"] show ?thesis by simp
qed









section \<open>Properties of the Platform Matcher\<close>

lemma startsWith_iff: "startsWith s d \<longleftrightarrow> (\<exists>b. s = d @ b)"
  by (induction s d rule: startsWith.induct) auto

lemma str_includes_iff: "str_includes s d \<longleftrightarrow> (\<exists>a b. s = a @ d @ b)"
proof (induction s d rule: str_includes.induct)
  case (1 d)
  then show ?case by auto
next
  case (2 c cs d)
  show ?case
  proof (cases "startsWith (c # cs) d")
    case True
    then obtain b where "c # cs = d @ b" by (auto simp: startsWith_iff)
    then have "c # cs = [] @ d @ b" by simp
    then have "\<exists>a b. c # cs = a @ d @ b" by blast
    with True show ?thesis by simp
  next
    case False
    have "(\<exists>a b. c # cs = a @ d @ b) \<longleftrightarrow> (\<exists>a b. cs = a @ d @ b)"
    proof
      assume "\<exists>a b. c # cs = a @ d @ b"
      then obtain a b where ab: "c # cs = a @ d @ b" by blast
      show "\<exists>a b. cs = a @ d @ b"
      proof (cases a)
        case Nil
        with ab have "startsWith (c # cs) d" by (auto simp: startsWith_iff)
        with False show ?thesis by simp
      next
        case (Cons x xs)
        with ab have "cs = xs @ d @ b" by simp
        then show ?thesis by blast
      qed
    next
      assume "\<exists>a b. cs = a @ d @ b"
      then obtain a b where "cs = a @ d @ b" by blast
      then have "c # cs = (c # a) @ d @ b" by simp
      then show "\<exists>a b. c # cs = a @ d @ b" by blast
    qed
    with False 2 show ?thesis by simp
  qed
qed

lemma star_ends_suffix: "t \<in> set (star_ends cls s) \<Longrightarrow> \<exists>m. s = m @ t"
proof (induction s)
  case Nil
  then show ?case by simp
next
  case (Cons c cs)
  from Cons.prems have "t = c # cs \<or> t \<in> set (star_ends cls cs)"
    by (auto split: if_splits)
  then show ?case
  proof
    assume "t = c # cs"
    then show ?thesis by simp
  next
    assume "t \<in> set (star_ends cls cs)"
    then obtain m where "cs = m @ t" using Cons.IH by blast
    then have "c # cs = (c # m) @ t" by simp
    then show ?thesis by blast
  qed
qed

lemma rx_ends_suffix: "t \<in> set (rx_ends r s) \<Longrightarrow> \<exists>m. s = m @ t"
proof (induction r arbitrary: s t)
  case Eps
  then show ?case by simp
next
  case (Sym cls)
  then show ?case by (cases s) (auto split: if_splits)
next
  case (Cat r1 r2)
  from Cat.prems obtain s1 where s1: "s1 \<in> set (rx_ends r1 s)" and t: "t \<in> set (rx_ends r2 s1)"
    by auto
  from Cat.IH(1) [OF s1] obtain m1 where "s = m1 @ s1" by blast
  moreover from Cat.IH(2) [OF t] obtain m2 where "s1 = m2 @ t" by blast
  ultimately have "s = (m1 @ m2) @ t" by simp
  then show ?case by blast
next
  case (Opt r)
  then show ?case by auto
next
  case (Plus cls)
  show ?case
  proof (cases s)
    case Nil
    with Plus show ?thesis by simp
  next
    case (Cons c cs)
    with Plus have "t \<in> set (star_ends cls cs)" by (auto split: if_splits)
    then obtain m where "cs = m @ t" using star_ends_suffix by blast
    with Cons have "s = (c # m) @ t" by simp
    then show ?thesis by blast
  qed
next
  case (Star cls)
  then show ?case by (simp add: star_ends_suffix)
qed

lemma lit_Nil: "lit [] = Eps"
  by (simp add: lit_def)

lemma lit_Cons: "lit (c # cs) = Cat (Sym [Ch c]) (lit cs)"
  by (simp add: lit_def)

lemma lit_ends:
  "t \<in> set (rx_ends (lit l) s) \<Longrightarrow> \<exists>m. s = m @ t \<and> map canonicalize m = map canonicalize l"
proof (induction l arbitrary: s)
  case Nil
  then show ?case by (simp add: lit_Nil)
next
  case (Cons c cs)
  from Cons.prems obtain s1 where s1: "s1 \<in> set (rx_ends (Sym [Ch c]) s)"
    and t: "t \<in> set (rx_ends (lit cs) s1)"
    by (auto simp: lit_Cons)
  from s1 obtain x where x: "s = x # s1" "canonicalize c = canonicalize x"
    by (cases s) (auto simp: class_match_def split: if_splits)
  from Cons.IH [OF t] obtain m where m: "s1 = m @ t" "map canonicalize m = map canonicalize cs"
    by blast
  from x m have "s = (x # m) @ t \<and> map canonicalize (x # m) = map canonicalize (c # cs)"
    by simp
  then show ?case by blast
qed

lemma seqs_Cons: "seqs (r # rs) = Cat r (seqs rs)"
  by (simp add: seqs_def)

lemma seqs_lit_ends:
  "t \<in> set (rx_ends (seqs (rs1 @ lit l # rs2)) s) \<Longrightarrow>
   \<exists>a m b. s = a @ m @ b \<and> map canonicalize m = map canonicalize l"
proof (induction rs1 arbitrary: s)
  case Nil
  then obtain s1 where "s1 \<in> set (rx_ends (lit l) s)"
    by (auto simp: seqs_Cons)
  then obtain m where "s = m @ s1" "map canonicalize m = map canonicalize l"
    using lit_ends by blast
  then have "s = [] @ m @ s1 \<and> map canonicalize m = map canonicalize l" by simp
  then show ?case by blast
next
  case (Cons r rs1)
  from Cons.prems obtain s1 where s1: "s1 \<in> set (rx_ends r s)"
    and t: "t \<in> set (rx_ends (seqs (rs1 @ lit l # rs2)) s1)"
    by (auto simp: seqs_Cons)
  from rx_ends_suffix [OF s1] obtain x where x: "s = x @ s1" by blast
  from Cons.IH [OF t] obtain a m b where "s1 = a @ m @ b" "map canonicalize m = map canonicalize l"
    by blast
  with x have "s = (x @ a) @ m @ b \<and> map canonicalize m = map canonicalize l" by simp
  then show ?case by blast
qed

lemma rx_test_position: "rx_test r u \<Longrightarrow> \<exists>a s. u = a @ s \<and> rx_ends r s \<noteq> []"
proof (induction u)
  case Nil
  then have "[] = [] @ [] \<and> rx_ends r [] \<noteq> []" by simp
  then show ?case by (intro exI)
next
  case (Cons c cs)
  show ?case
  proof (cases "rx_ends r (c # cs) = []")
    case False
    then have "c # cs = [] @ (c # cs) \<and> rx_ends r (c # cs) \<noteq> []" by simp
    then show ?thesis by (intro exI)
  next
    case True
    with Cons.prems have "rx_test r cs" by simp
    from Cons.IH [OF this] obtain a s where as: "cs = a @ s" "rx_ends r s \<noteq> []"
      by (elim exE conjE)
    then have "c # cs = (c # a) @ s \<and> rx_ends r s \<noteq> []" by simp
    then show ?thesis by (intro exI)
  qed
qed

text \<open>
  A pattern that is a sequence with a literal run in it matches only strings that hold
  that run, up to the case of letters.
\<close>

lemma rx_test_needs_literal:
  assumes "rx_test (seqs (rs1 @ lit l # rs2)) u"
  shows "str_includes (map canonicalize u) (map canonicalize l)"
proof -
  from rx_test_position [OF assms] obtain a s where u: "u = a @ s"
    and ne: "rx_ends (seqs (rs1 @ lit l # rs2)) s \<noteq> []"
    by blast
  from ne obtain t where "t \<in> set (rx_ends (seqs (rs1 @ lit l # rs2)) s)"
    by (cases "rx_ends (seqs (rs1 @ lit l # rs2)) s") auto
  from seqs_lit_ends [OF this] obtain a' m b where "s = a' @ m @ b"
    and m: "map canonicalize m = map canonicalize l"
    by blast
  with u have "map canonicalize u = map canonicalize (a @ a') @ map canonicalize l @ map canonicalize b"
    by simp
  then show ?thesis unfolding str_includes_iff by blast
qed

lemma detect_loop_found:
  "detect_loop ps u \<noteq> ''unknown'' \<Longrightarrow>
   \<exists>p \<in> set ps. name p = detect_loop ps u \<and> hasValidDomain p u \<and> matchesPattern p u"
  by (induction ps) (auto split: if_splits)

lemma detect_loop_none:
  "\<forall>p \<in> set ps. \<not> (hasValidDomain p u \<and> matchesPattern p u) \<Longrightarrow>
   detect_loop ps u = ''unknown''"
  by (induction ps) auto

lemma hasValidDomainI:
  "d \<in> set (domains p) \<Longrightarrow> str_includes (toLowerCase u) d \<Longrightarrow> hasValidDomain p u"
  unfolding hasValidDomain_def list_ex_iff by (rule bexI)

lemma matchesPatternI:
  "r \<in> set (patterns p) \<Longrightarrow> rx_test r u \<Longrightarrow> matchesPattern p u"
  unfolding matchesPattern_def list_ex_iff by (rule bexI)

lemma no_literal_no_match:
  "\<not> str_includes (map canonicalize u) (map canonicalize l) \<Longrightarrow>
   \<not> rx_test (seqs (rs1 @ lit l # rs2)) u"
  using rx_test_needs_literal by blast

lemmas char_eval = toLowerCase_def toLowerChar_def canonicalize_def upperAZ_def lowerAZ_def
  digits09_def isDigit_def isWord_def class_match_def

lemmas rx_eval = lit_def seqs_def proto_def www_def word_dot_dash_def word_dash_def

subsection \<open>A URL that names two platforms\<close>

lemma two_platforms_tiktok_domain:
  "hasValidDomain tiktok ''https://youtu.be/abc?ref=tiktok.com''"
proof (rule hasValidDomainI)
  show "''tiktok.com'' \<in> set (domains tiktok)" by (simp add: tiktok_def)
  show "str_includes (toLowerCase ''https://youtu.be/abc?ref=tiktok.com'') ''tiktok.com''"
    by (simp add: char_eval)
qed

lemma two_platforms_tiktok_no_pattern:
  "\<not> matchesPattern tiktok ''https://youtu.be/abc?ref=tiktok.com''"
proof -
  let ?u = "''https://youtu.be/abc?ref=tiktok.com''"
  have "\<not> rx_test (seqs ([proto, www] @ lit ''tiktok.com/@'' #
      [Plus word_dot_dash, lit ''/video/'', Plus [Digit]])) ?u"
    by (rule no_literal_no_match) (simp add: char_eval)
  moreover have "\<not> rx_test (seqs ([proto] @ lit ''vm.tiktok.com/'' # [Plus [Word]])) ?u"
    by (rule no_literal_no_match) (simp add: char_eval)
  ultimately show ?thesis
    by (simp add: matchesPattern_def tiktok_def)
qed

lemma two_platforms_instagram_no_domain:
  "\<not> hasValidDomain instagram ''https://youtu.be/abc?ref=tiktok.com''"
  by (simp add: hasValidDomain_def instagram_def char_eval)

lemma two_platforms_youtube_domain:
  "hasValidDomain youtube ''https://youtu.be/abc?ref=tiktok.com''"
proof (rule hasValidDomainI)
  show "''youtu.be'' \<in> set (domains youtube)" by (simp add: youtube_def)
  show "str_includes (toLowerCase ''https://youtu.be/abc?ref=tiktok.com'') ''youtu.be''"
    by (simp add: char_eval)
qed

lemma two_platforms_youtube_pattern:
  "matchesPattern youtube ''https://youtu.be/abc?ref=tiktok.com''"
proof (rule matchesPatternI)
  show "seqs [proto, lit ''youtu.be/'', Plus word_dash] \<in> set (patterns youtube)"
    by (simp add: youtube_def)
  show "rx_test (seqs [proto, lit ''youtu.be/'', Plus word_dash]) ''https://youtu.be/abc?ref=tiktok.com''"
    by (simp add: rx_eval char_eval)
qed

lemma two_platforms_detect:
  "detectPlatform ''https://youtu.be/abc?ref=tiktok.com'' = ''YouTube''"
proof -
  have "name youtube = ''YouTube''" by (simp add: youtube_def)
  then show ?thesis
    by (simp add: detectPlatform_def SUPPORTED_PLATFORMS_def two_platforms_tiktok_domain
        two_platforms_tiktok_no_pattern two_platforms_instagram_no_domain
        two_platforms_youtube_domain two_platforms_youtube_pattern)
qed

subsection \<open>A TikTok URL without a video path, and a canonical one\<close>

lemma foo_tiktok_domain: "hasValidDomain tiktok ''https://www.tiktok.com/foo''"
proof (rule hasValidDomainI)
  show "''tiktok.com'' \<in> set (domains tiktok)" by (simp add: tiktok_def)
  show "str_includes (toLowerCase ''https://www.tiktok.com/foo'') ''tiktok.com''"
    by (simp add: char_eval)
qed

lemma foo_tiktok_no_pattern: "\<not> matchesPattern tiktok ''https://www.tiktok.com/foo''"
proof -
  let ?u = "''https://www.tiktok.com/foo''"
  have "\<not> rx_test (seqs ([proto, www] @ lit ''tiktok.com/@'' #
      [Plus word_dot_dash, lit ''/video/'', Plus [Digit]])) ?u"
    by (rule no_literal_no_match) (simp add: char_eval)
  moreover have "\<not> rx_test (seqs ([proto] @ lit ''vm.tiktok.com/'' # [Plus [Word]])) ?u"
    by (rule no_literal_no_match) (simp add: char_eval)
  ultimately show ?thesis
    by (simp add: matchesPattern_def tiktok_def)
qed

lemma foo_other_domains:
  "\<not> hasValidDomain instagram ''https://www.tiktok.com/foo''"
  "\<not> hasValidDomain youtube ''https://www.tiktok.com/foo''"
  "\<not> hasValidDomain twitter ''https://www.tiktok.com/foo''"
  "\<not> hasValidDomain facebook ''https://www.tiktok.com/foo''"
  "\<not> hasValidDomain snapchat ''https://www.tiktok.com/foo''"
  by (simp_all add: hasValidDomain_def instagram_def youtube_def twitter_def facebook_def
      snapchat_def char_eval)

lemma canonical_tiktok_domain:
  "hasValidDomain tiktok ''https://www.tiktok.com/@user/video/123456''"
proof (rule hasValidDomainI)
  show "''tiktok.com'' \<in> set (domains tiktok)" by (simp add: tiktok_def)
  show "str_includes (toLowerCase ''https://www.tiktok.com/@user/video/123456'') ''tiktok.com''"
    by (simp add: char_eval)
qed

lemma canonical_tiktok_pattern:
  "matchesPattern tiktok ''https://www.tiktok.com/@user/video/123456''"
proof (rule matchesPatternI)
  show "seqs [proto, www, lit ''tiktok.com/@'', Plus word_dot_dash, lit ''/video/'', Plus [Digit]]
      \<in> set (patterns tiktok)"
    by (simp add: tiktok_def)
  show "rx_test (seqs [proto, www, lit ''tiktok.com/@'', Plus word_dot_dash, lit ''/video/'',
      Plus [Digit]]) ''https://www.tiktok.com/@user/video/123456''"
    by (simp add: rx_eval char_eval)
qed

lemma canonical_tiktok_detect:
  "detectPlatform ''https://www.tiktok.com/@user/video/123456'' = ''TikTok''"
proof -
  have "name tiktok = ''TikTok''" by (simp add: tiktok_def)
  then show ?thesis
    by (simp add: detectPlatform_def SUPPORTED_PLATFORMS_def canonical_tiktok_domain
        canonical_tiktok_pattern)
qed

text \<open>
  Claim C6, as amended. For every URL, \<open>detectPlatform\<close> returns a platform name only
  if the URL contains (case-insensitively) one of that platform's domain substrings and
  matches one of that platform's patterns; it returns \<^verbatim>\<open>unknown\<close> when no platform
  satisfies both. In particular a URL that contains a domain substring of one platform,
  matches none of that platform's patterns and contains no domain substring of any
  other platform is \<^verbatim>\<open>unknown\<close>.
\<close>

theorem detectPlatform_matching_rule:
  "(detectPlatform u \<noteq> ''unknown'' \<longrightarrow>
      (\<exists>p \<in> set SUPPORTED_PLATFORMS.
         name p = detectPlatform u \<and> hasValidDomain p u \<and> matchesPattern p u)) \<and>
   ((\<forall>p \<in> set SUPPORTED_PLATFORMS. \<not> (hasValidDomain p u \<and> matchesPattern p u)) \<longrightarrow>
      detectPlatform u = ''unknown'') \<and>
   (\<forall>q \<in> set SUPPORTED_PLATFORMS.
      hasValidDomain q u \<and> \<not> matchesPattern q u \<and>
      (\<forall>p \<in> set SUPPORTED_PLATFORMS. p \<noteq> q \<longrightarrow> \<not> hasValidDomain p u) \<longrightarrow>
      detectPlatform u = ''unknown'')"
proof (intro conjI impI ballI)
  assume a: "detectPlatform u \<noteq> ''unknown''"
  then have ne: "u \<noteq> []" by (cases "u = []") (simp_all add: detectPlatform_def)
  then have eq: "detectPlatform u = detect_loop SUPPORTED_PLATFORMS u"
    by (simp add: detectPlatform_def)
  with a have "detect_loop SUPPORTED_PLATFORMS u \<noteq> ''unknown''" by simp
  from detect_loop_found [OF this] eq
  show "\<exists>p \<in> set SUPPORTED_PLATFORMS.
      name p = detectPlatform u \<and> hasValidDomain p u \<and> matchesPattern p u"
    by simp
next
  assume "\<forall>p \<in> set SUPPORTED_PLATFORMS. \<not> (hasValidDomain p u \<and> matchesPattern p u)"
  then have "detect_loop SUPPORTED_PLATFORMS u = ''unknown''" by (rule detect_loop_none)
  then show "detectPlatform u = ''unknown''" by (simp add: detectPlatform_def)
next
  fix q
  assume q: "q \<in> set SUPPORTED_PLATFORMS"
    and h: "hasValidDomain q u \<and> \<not> matchesPattern q u \<and>
      (\<forall>p \<in> set SUPPORTED_PLATFORMS. p \<noteq> q \<longrightarrow> \<not> hasValidDomain p u)"
  have "\<forall>p \<in> set SUPPORTED_PLATFORMS. \<not> (hasValidDomain p u \<and> matchesPattern p u)"
  proof
    fix p assume p: "p \<in> set SUPPORTED_PLATFORMS"
    show "\<not> (hasValidDomain p u \<and> matchesPattern p u)"
    proof (cases "p = q")
      case True
      with h show ?thesis by simp
    next
      case False
      with h p show ?thesis by simp
    qed
  qed
  then have "detect_loop SUPPORTED_PLATFORMS u = ''unknown''" by (rule detect_loop_none)
  then show "detectPlatform u = ''unknown''" by (simp add: detectPlatform_def)
qed

theorem detectPlatform_matching_rule_witness:
  "hasValidDomain tiktok ''https://www.tiktok.com/foo'' \<and>
   \<not> matchesPattern tiktok ''https://www.tiktok.com/foo'' \<and>
   detectPlatform ''https://www.tiktok.com/foo'' = ''unknown'' \<and>
   detectPlatform ''https://www.tiktok.com/@user/video/123456'' = ''TikTok'' \<and>
   (\<exists>p \<in> set SUPPORTED_PLATFORMS.
      name p = ''TikTok'' \<and>
      hasValidDomain p ''https://www.tiktok.com/@user/video/123456'' \<and>
      matchesPattern p ''https://www.tiktok.com/@user/video/123456'')"
proof -
  let ?foo = "''https://www.tiktok.com/foo''"
  let ?vid = "''https://www.tiktok.com/@user/video/123456''"
  have none: "\<forall>p \<in> set SUPPORTED_PLATFORMS. \<not> (hasValidDomain p ?foo \<and> matchesPattern p ?foo)"
    by (simp add: SUPPORTED_PLATFORMS_def foo_tiktok_no_pattern foo_other_domains)
  from detectPlatform_matching_rule [of ?foo]
  have "(\<forall>p \<in> set SUPPORTED_PLATFORMS. \<not> (hasValidDomain p ?foo \<and> matchesPattern p ?foo)) \<longrightarrow>
      detectPlatform ?foo = ''unknown''"
    by (elim conjE)
  with none have 1: "detectPlatform ?foo = ''unknown''" by (rule rev_mp)
  have known: "detectPlatform ?vid \<noteq> ''unknown''"
    by (simp add: canonical_tiktok_detect)
  from detectPlatform_matching_rule [of ?vid]
  have "detectPlatform ?vid \<noteq> ''unknown'' \<longrightarrow>
      (\<exists>p \<in> set SUPPORTED_PLATFORMS.
         name p = detectPlatform ?vid \<and> hasValidDomain p ?vid \<and> matchesPattern p ?vid)"
    by (elim conjE)
  with known have "\<exists>p \<in> set SUPPORTED_PLATFORMS.
      name p = detectPlatform ?vid \<and> hasValidDomain p ?vid \<and> matchesPattern p ?vid"
    by (rule rev_mp)
  then have 2: "\<exists>p \<in> set SUPPORTED_PLATFORMS.
      name p = ''TikTok'' \<and> hasValidDomain p ?vid \<and> matchesPattern p ?vid"
    by (simp only: canonical_tiktok_detect)
  from foo_tiktok_domain foo_tiktok_no_pattern 1 canonical_tiktok_detect 2
  show ?thesis by (intro conjI)
qed

text \<open>
  The claim as the specification states it fails: this URL contains the TikTok domain
  substring and matches no TikTok pattern, yet it is detected as YouTube, whose domain
  and pattern it also holds.
\<close>

theorem detectPlatform_two_platforms_counterexample:
  "tiktok \<in> set SUPPORTED_PLATFORMS \<and>
   hasValidDomain tiktok ''https://youtu.be/abc?ref=tiktok.com'' \<and>
   \<not> matchesPattern tiktok ''https://youtu.be/abc?ref=tiktok.com'' \<and>
   detectPlatform ''https://youtu.be/abc?ref=tiktok.com'' = ''YouTube'' \<and>
   \<not> spec_domain_without_pattern_unknown ''https://youtu.be/abc?ref=tiktok.com'' tiktok"
proof -
  have m: "tiktok \<in> set SUPPORTED_PLATFORMS" by (simp add: SUPPORTED_PLATFORMS_def)
  have s: "\<not> spec_domain_without_pattern_unknown ''https://youtu.be/abc?ref=tiktok.com'' tiktok"
    by (simp add: spec_domain_without_pattern_unknown_def two_platforms_tiktok_domain
        two_platforms_tiktok_no_pattern two_platforms_detect)
  from m two_platforms_tiktok_domain two_platforms_tiktok_no_pattern two_platforms_detect s
  show ?thesis by (intro conjI)
qed

section \<open>Properties of the Media Processor\<close>

lemma try_block_rm_independent:
  "try_block (w\<lparr>rm_fails := x\<rparr>) jid u q rw f pp op = try_block w jid u q rw f pp op"
  by (simp add: try_block_def Let_def split: option.splits sum.splits)

lemma ffmpeg_progress_no_FFmpeg: "\<not> list_ex is_FFmpeg (ffmpeg_progress ts)"
  by (induction ts) (auto simp: ffmpeg_progress_def)

lemma ffmpeg_progress_no_Rename: "\<not> list_ex is_Rename (ffmpeg_progress ts)"
  by (induction ts) (auto simp: ffmpeg_progress_def)

lemma ytdlp_progress_no_FFmpeg: "\<not> list_ex is_FFmpeg (map ytdlp_progress ps)"
  by (induction ps) (auto simp: ytdlp_progress_def)

lemma ytdlp_progress_no_Rename: "\<not> list_ex is_Rename (map ytdlp_progress ps)"
  by (induction ps) (auto simp: ytdlp_progress_def)

lemma catch_block_plain:
  "\<not> list_ex is_FFmpeg (catch_block jid r)" "\<not> list_ex is_Rename (catch_block jid r)"
  by (simp_all add: catch_block_def split: sum.splits)

lemma finally_block_plain:
  "\<not> list_ex is_FFmpeg (finally_block w pp)" "\<not> list_ex is_Rename (finally_block w pp)"
  by (simp_all add: finally_block_def split: option.splits)

lemma try_block_FFmpeg:
  "list_ex is_FFmpeg (snd (try_block w jid u q rw f pp op)) \<longleftrightarrow>
     mkdir_fails w = None \<and> (\<exists>raw. ytdlp_result w = Inr raw) \<and> (rw \<or> f \<noteq> ''mp4'')"
  by (simp add: try_block_def Let_def ytdlp_progress_no_FFmpeg ffmpeg_progress_no_FFmpeg
      split: option.splits sum.splits)

lemma try_block_Rename:
  "list_ex is_Rename (snd (try_block w jid u q rw f pp op)) \<longleftrightarrow>
     mkdir_fails w = None \<and> (\<exists>raw. ytdlp_result w = Inr raw) \<and> \<not> (rw \<or> f \<noteq> ''mp4'')"
  by (simp add: try_block_def Let_def ytdlp_progress_no_Rename ffmpeg_progress_no_Rename
      split: option.splits sum.splits)

lemma try_block_Rename_args:
  "mkdir_fails w = None \<Longrightarrow> ytdlp_result w = Inr raw \<Longrightarrow> \<not> rw \<Longrightarrow> f = ''mp4'' \<Longrightarrow>
   Rename raw op \<in> set (snd (try_block w jid u q rw f pp op))"
  by (simp add: try_block_def Let_def split: option.splits sum.splits)

lemma try_block_FFmpeg_args:
  "mkdir_fails w = None \<Longrightarrow> ytdlp_result w = Inr raw \<Longrightarrow> rw \<or> f \<noteq> ''mp4'' \<Longrightarrow>
   FFmpeg (ffmpegArgs raw op rw f) \<in> set (snd (try_block w jid u q rw f pp op))"
  by (simp add: try_block_def Let_def split: option.splits sum.splits)

lemma snd_downloadAndProcessVideo:
  "snd (downloadAndProcessVideo w jid u opts) =
     snd (try_block w jid u (quality_of opts) (removeWatermark_of opts) (format_of opts)
            (processingPath_of jid) (outputPath_of jid (format_of opts)))
     @ catch_block jid (fst (try_block w jid u (quality_of opts) (removeWatermark_of opts)
            (format_of opts) (processingPath_of jid) (outputPath_of jid (format_of opts))))
     @ finally_block w (processingPath_of jid)"
  by (simp add: downloadAndProcessVideo_def Let_def split: prod.splits)

lemma fst_downloadAndProcessVideo:
  "fst (downloadAndProcessVideo w jid u opts) =
     fst (try_block w jid u (quality_of opts) (removeWatermark_of opts) (format_of opts)
            (processingPath_of jid) (outputPath_of jid (format_of opts)))"
  by (simp add: downloadAndProcessVideo_def Let_def split: prod.splits)

lemma transform_invoked_iff:
  "transform_invoked (snd (downloadAndProcessVideo w jid u opts)) \<longleftrightarrow>
     mkdir_fails w = None \<and> (\<exists>raw. ytdlp_result w = Inr raw) \<and>
     (removeWatermark_of opts \<or> format_of opts \<noteq> ''mp4'')"
  by (simp add: transform_invoked_def snd_downloadAndProcessVideo try_block_FFmpeg
      catch_block_plain finally_block_plain)

lemma relocated_iff:
  "relocated (snd (downloadAndProcessVideo w jid u opts)) \<longleftrightarrow>
     mkdir_fails w = None \<and> (\<exists>raw. ytdlp_result w = Inr raw) \<and>
     \<not> (removeWatermark_of opts \<or> format_of opts \<noteq> ''mp4'')"
  by (simp add: relocated_def snd_downloadAndProcessVideo try_block_Rename
      catch_block_plain finally_block_plain)

lemma relocated_args:
  assumes "mkdir_fails w = None" "ytdlp_result w = Inr raw"
    and "\<not> removeWatermark_of opts" "format_of opts = ''mp4''"
  shows "Rename raw (outputPath_of jid ''mp4'') \<in> set (snd (downloadAndProcessVideo w jid u opts))"
  using try_block_Rename_args [OF assms(1,2,3,4), of "outputPath_of jid ''mp4''" jid u
      "quality_of opts" "processingPath_of jid"] assms(4)
  by (simp add: snd_downloadAndProcessVideo)

lemma transform_args:
  assumes "mkdir_fails w = None" "ytdlp_result w = Inr raw"
    and "removeWatermark_of opts \<or> format_of opts \<noteq> ''mp4''"
  shows "FFmpeg (ffmpegArgs raw (outputPath_of jid (format_of opts)) (removeWatermark_of opts)
           (format_of opts)) \<in> set (snd (downloadAndProcessVideo w jid u opts))"
  using try_block_FFmpeg_args [OF assms(1,2,3)]
  by (simp add: snd_downloadAndProcessVideo)

text \<open>
  Claim C3, as amended. The transform stage is invoked exactly when the fetch stage has
  produced a file and watermark removal is requested or the requested format is not
  \<^verbatim>\<open>mp4\<close> (the test is against that fixed name, not against the container of the
  fetched file). When the fetch stage has produced a file and neither holds, the file is
  relocated to the output path and the transcode process is not invoked.
\<close>

theorem transform_stage_condition:
  "(transform_invoked (snd (downloadAndProcessVideo w jid u opts)) \<longleftrightarrow>
      mkdir_fails w = None \<and> (\<exists>raw. ytdlp_result w = Inr raw) \<and>
      (removeWatermark_of opts \<or> format_of opts \<noteq> ''mp4'')) \<and>
   (relocated (snd (downloadAndProcessVideo w jid u opts)) \<longleftrightarrow>
      mkdir_fails w = None \<and> (\<exists>raw. ytdlp_result w = Inr raw) \<and>
      \<not> (removeWatermark_of opts \<or> format_of opts \<noteq> ''mp4'')) \<and>
   (\<forall>raw. mkdir_fails w = None \<and> ytdlp_result w = Inr raw \<and>
      \<not> removeWatermark_of opts \<and> format_of opts = ''mp4'' \<longrightarrow>
      Rename raw (outputPath_of jid ''mp4'') \<in> set (snd (downloadAndProcessVideo w jid u opts)) \<and>
      \<not> transform_invoked (snd (downloadAndProcessVideo w jid u opts)))"
proof (intro conjI allI impI)
  show "transform_invoked (snd (downloadAndProcessVideo w jid u opts)) \<longleftrightarrow>
      mkdir_fails w = None \<and> (\<exists>raw. ytdlp_result w = Inr raw) \<and>
      (removeWatermark_of opts \<or> format_of opts \<noteq> ''mp4'')"
    by (rule transform_invoked_iff)
  show "relocated (snd (downloadAndProcessVideo w jid u opts)) \<longleftrightarrow>
      mkdir_fails w = None \<and> (\<exists>raw. ytdlp_result w = Inr raw) \<and>
      \<not> (removeWatermark_of opts \<or> format_of opts \<noteq> ''mp4'')"
    by (rule relocated_iff)
next
  fix raw
  assume a: "mkdir_fails w = None \<and> ytdlp_result w = Inr raw \<and>
      \<not> removeWatermark_of opts \<and> format_of opts = ''mp4''"
  then show "Rename raw (outputPath_of jid ''mp4'') \<in> set (snd (downloadAndProcessVideo w jid u opts))"
    by (intro relocated_args) simp_all
  from a show "\<not> transform_invoked (snd (downloadAndProcessVideo w jid u opts))"
    by (simp add: transform_invoked_iff)
qed

theorem transform_stage_condition_witness:
  "Rename ''temp/processing/job1/video.mp4'' (outputPath_of ''job1'' ''mp4'')
     \<in> set (snd (downloadAndProcessVideo
          \<lparr>mkdir_fails = None, ytdlp_percents = [100],
           ytdlp_result = Inr ''temp/processing/job1/video.mp4'',
           ffmpeg_times = [], ffmpeg_fails = None, rename_fails = None,
           stat_result = Inr 1000, rm_fails = None\<rparr>
          ''job1'' ''https://youtu.be/abc''
          \<lparr>opt_quality = Some ''best'', opt_removeWatermark = Some False,
           opt_format = Some ''mp4''\<rparr>)) \<and>
   \<not> transform_invoked (snd (downloadAndProcessVideo
          \<lparr>mkdir_fails = None, ytdlp_percents = [100],
           ytdlp_result = Inr ''temp/processing/job1/video.mp4'',
           ffmpeg_times = [], ffmpeg_fails = None, rename_fails = None,
           stat_result = Inr 1000, rm_fails = None\<rparr>
          ''job1'' ''https://youtu.be/abc''
          \<lparr>opt_quality = Some ''best'', opt_removeWatermark = Some False,
           opt_format = Some ''mp4''\<rparr>))"
proof -
  let ?w = "\<lparr>mkdir_fails = None, ytdlp_percents = [100],
           ytdlp_result = Inr ''temp/processing/job1/video.mp4'',
           ffmpeg_times = [], ffmpeg_fails = None, rename_fails = None,
           stat_result = Inr 1000, rm_fails = None\<rparr>"
  let ?o = "\<lparr>opt_quality = Some ''best'', opt_removeWatermark = Some False,
           opt_format = Some ''mp4''\<rparr>"
  let ?raw = "''temp/processing/job1/video.mp4''"
  have pre: "mkdir_fails ?w = None \<and> ytdlp_result ?w = Inr ?raw \<and>
      \<not> removeWatermark_of ?o \<and> format_of ?o = ''mp4''"
    by (simp add: removeWatermark_of_def format_of_def)
  from transform_stage_condition [of ?w "''job1''" "''https://youtu.be/abc''" ?o]
  have "\<forall>raw. mkdir_fails ?w = None \<and> ytdlp_result ?w = Inr raw \<and>
      \<not> removeWatermark_of ?o \<and> format_of ?o = ''mp4'' \<longrightarrow>
      Rename raw (outputPath_of ''job1'' ''mp4'')
        \<in> set (snd (downloadAndProcessVideo ?w ''job1'' ''https://youtu.be/abc'' ?o)) \<and>
      \<not> transform_invoked (snd (downloadAndProcessVideo ?w ''job1'' ''https://youtu.be/abc'' ?o))"
    by (elim conjE)
  from this [THEN spec, of ?raw] pre show ?thesis by (rule mp)
qed

text \<open>
  The claim as stated fails in both directions. A fetched WebM file with WebM requested
  and no watermark removal is transcoded although format and container agree; a fetched
  WebM file with MP4 requested and no watermark removal is only renamed although they
  differ.
\<close>

theorem transform_stage_container_counterexample:
  "transform_invoked (snd (downloadAndProcessVideo
      \<lparr>mkdir_fails = None, ytdlp_percents = [100],
       ytdlp_result = Inr ''temp/processing/job1/video.webm'',
       ffmpeg_times = [], ffmpeg_fails = None, rename_fails = None,
       stat_result = Inr 1000, rm_fails = None\<rparr>
      ''job1'' ''https://youtu.be/abc''
      \<lparr>opt_quality = Some ''best'', opt_removeWatermark = Some False,
       opt_format = Some ''webm''\<rparr>)) \<and>
   \<not> spec_transform_needed False ''webm'' ''temp/processing/job1/video.webm'' \<and>
   \<not> transform_invoked (snd (downloadAndProcessVideo
      \<lparr>mkdir_fails = None, ytdlp_percents = [100],
       ytdlp_result = Inr ''temp/processing/job1/video.webm'',
       ffmpeg_times = [], ffmpeg_fails = None, rename_fails = None,
       stat_result = Inr 1000, rm_fails = None\<rparr>
      ''job1'' ''https://youtu.be/abc''
      \<lparr>opt_quality = Some ''best'', opt_removeWatermark = Some False,
       opt_format = Some ''mp4''\<rparr>)) \<and>
   spec_transform_needed False ''mp4'' ''temp/processing/job1/video.webm''"
proof -
  have e: "extname ''temp/processing/job1/video.webm'' = ''webm''"
    by (simp add: extname_def)
  show ?thesis
    by (simp add: transform_invoked_iff removeWatermark_of_def format_of_def
        spec_transform_needed_def e)
qed

lemma try_block_result:
  "fst (try_block w jid u q rw f pp op) =
     (case mkdir_fails w of
        Some e \<Rightarrow> Inl e
      | None \<Rightarrow>
          (case ytdlp_result w of
             Inl e \<Rightarrow> Inl e
           | Inr raw \<Rightarrow>
               (case (if rw \<or> f \<noteq> ''mp4'' then ffmpeg_fails w else rename_fails w) of
                  Some e \<Rightarrow> Inl e
                | None \<Rightarrow>
                    (case stat_result w of
                       Inl e \<Rightarrow> Inl e
                     | Inr sz \<Rightarrow>
                         Inr \<lparr>success = True, filePath = op, r_fileSize = sz,
                              r_downloadUrl = ''/downloads/'' @ jid @ ''.'' @ f\<rparr>))))"
  by (simp add: try_block_def Let_def split: option.splits sum.splits)

lemma processingPath_of_eq: "processingPath_of jid = ''temp/processing/'' @ jid"
  by (simp add: processingPath_of_def PROCESSING_DIR_def TEMP_DIR_def join_def)

text \<open>
  Claim C8. For every job execution, whatever the outcome of the processing, the scratch
  subdirectory of the job, \<^verbatim>\<open>temp/processing/<jobId>\<close>, is removed with
  \<^verbatim>\<open>recursive: true\<close> after the job has settled: the removal comes after every
  action of the processing and of its error handler and, when it succeeds, is the last
  action of the run. A failure of the removal adds one warning to the log and changes
  nothing else. In particular the outcome is the one of the processing, whether the
  removal fails or not: the error of the first step that failed (creating the scratch
  directory, the fetch, the transform or the relocation, reading the size of the
  output), and otherwise the result with the output path, its size and its download
  URL.
\<close>

theorem scratch_directory_always_removed:
  "processingPath_of jid = ''temp/processing/'' @ jid \<and>
   Rm (processingPath_of jid) True True \<in> set (snd (downloadAndProcessVideo w jid u opts)) \<and>
   snd (downloadAndProcessVideo (w\<lparr>rm_fails := None\<rparr>) jid u opts) =
     snd (try_block w jid u (quality_of opts) (removeWatermark_of opts) (format_of opts)
            (processingPath_of jid) (outputPath_of jid (format_of opts)))
     @ catch_block jid (fst (try_block w jid u (quality_of opts) (removeWatermark_of opts)
            (format_of opts) (processingPath_of jid) (outputPath_of jid (format_of opts))))
     @ [Rm (processingPath_of jid) True True] \<and>
   snd (downloadAndProcessVideo (w\<lparr>rm_fails := None\<rparr>) jid u opts) =
     butlast (snd (downloadAndProcessVideo (w\<lparr>rm_fails := None\<rparr>) jid u opts))
     @ [Rm (processingPath_of jid) True True] \<and>
   snd (downloadAndProcessVideo (w\<lparr>rm_fails := Some e\<rparr>) jid u opts) =
     snd (downloadAndProcessVideo (w\<lparr>rm_fails := None\<rparr>) jid u opts)
     @ [LogWarn (''Failed to cleanup processing directory: '' @ e)] \<and>
   fst (downloadAndProcessVideo (w\<lparr>rm_fails := x\<rparr>) jid u opts) =
     (case mkdir_fails w of
        Some err \<Rightarrow> Inl err
      | None \<Rightarrow>
          (case ytdlp_result w of
             Inl err \<Rightarrow> Inl err
           | Inr raw \<Rightarrow>
               (case (if removeWatermark_of opts \<or> format_of opts \<noteq> ''mp4''
                      then ffmpeg_fails w else rename_fails w) of
                  Some err \<Rightarrow> Inl err
                | None \<Rightarrow>
                    (case stat_result w of
                       Inl err \<Rightarrow> Inl err
                     | Inr sz \<Rightarrow>
                         Inr \<lparr>success = True, filePath = outputPath_of jid (format_of opts),
                              r_fileSize = sz,
                              r_downloadUrl = ''/downloads/'' @ jid @ ''.'' @ format_of opts\<rparr>))))"
proof (intro conjI)
  show "processingPath_of jid = ''temp/processing/'' @ jid"
    by (rule processingPath_of_eq)
  show "Rm (processingPath_of jid) True True \<in> set (snd (downloadAndProcessVideo w jid u opts))"
    by (simp add: snd_downloadAndProcessVideo finally_block_def)
  show "snd (downloadAndProcessVideo (w\<lparr>rm_fails := None\<rparr>) jid u opts) =
     snd (try_block w jid u (quality_of opts) (removeWatermark_of opts) (format_of opts)
            (processingPath_of jid) (outputPath_of jid (format_of opts)))
     @ catch_block jid (fst (try_block w jid u (quality_of opts) (removeWatermark_of opts)
            (format_of opts) (processingPath_of jid) (outputPath_of jid (format_of opts))))
     @ [Rm (processingPath_of jid) True True]"
    by (simp add: snd_downloadAndProcessVideo finally_block_def try_block_rm_independent)
  show "snd (downloadAndProcessVideo (w\<lparr>rm_fails := None\<rparr>) jid u opts) =
     butlast (snd (downloadAndProcessVideo (w\<lparr>rm_fails := None\<rparr>) jid u opts))
     @ [Rm (processingPath_of jid) True True]"
    by (simp add: snd_downloadAndProcessVideo finally_block_def butlast_append)
  show "snd (downloadAndProcessVideo (w\<lparr>rm_fails := Some e\<rparr>) jid u opts) =
     snd (downloadAndProcessVideo (w\<lparr>rm_fails := None\<rparr>) jid u opts)
     @ [LogWarn (''Failed to cleanup processing directory: '' @ e)]"
    by (simp add: snd_downloadAndProcessVideo finally_block_def try_block_rm_independent)
  show "fst (downloadAndProcessVideo (w\<lparr>rm_fails := x\<rparr>) jid u opts) =
     (case mkdir_fails w of
        Some err \<Rightarrow> Inl err
      | None \<Rightarrow>
          (case ytdlp_result w of
             Inl err \<Rightarrow> Inl err
           | Inr raw \<Rightarrow>
               (case (if removeWatermark_of opts \<or> format_of opts \<noteq> ''mp4''
                      then ffmpeg_fails w else rename_fails w) of
                  Some err \<Rightarrow> Inl err
                | None \<Rightarrow>
                    (case stat_result w of
                       Inl err \<Rightarrow> Inl err
                     | Inr sz \<Rightarrow>
                         Inr \<lparr>success = True, filePath = outputPath_of jid (format_of opts),
                              r_fileSize = sz,
                              r_downloadUrl = ''/downloads/'' @ jid @ ''.'' @ format_of opts\<rparr>))))"
    unfolding fst_downloadAndProcessVideo try_block_rm_independent
    by (rule try_block_result)
qed

theorem scratch_directory_always_removed_witness:
  "fst (downloadAndProcessVideo
      \<lparr>mkdir_fails = None, ytdlp_percents = [100],
       ytdlp_result = Inr ''temp/processing/job1/video.mp4'',
       ffmpeg_times = [], ffmpeg_fails = None, rename_fails = None,
       stat_result = Inr 1000, rm_fails = Some ''EBUSY''\<rparr>
      ''job1'' ''https://youtu.be/abc''
      \<lparr>opt_quality = None, opt_removeWatermark = None, opt_format = None\<rparr>) =
     Inr \<lparr>success = True, filePath = ''temp/downloads/job1.mp4'', r_fileSize = 1000,
          r_downloadUrl = ''/downloads/job1.mp4''\<rparr> \<and>
   fst (downloadAndProcessVideo
      \<lparr>mkdir_fails = None, ytdlp_percents = [],
       ytdlp_result = Inl ''yt-dlp exited with code 1'',
       ffmpeg_times = [], ffmpeg_fails = None, rename_fails = None,
       stat_result = Inr 1000, rm_fails = Some ''EBUSY''\<rparr>
      ''job1'' ''https://youtu.be/abc''
      \<lparr>opt_quality = None, opt_removeWatermark = None, opt_format = None\<rparr>) =
     Inl ''yt-dlp exited with code 1'' \<and>
   Rm ''temp/processing/job1'' True True \<in> set (snd (downloadAndProcessVideo
      \<lparr>mkdir_fails = None, ytdlp_percents = [],
       ytdlp_result = Inl ''yt-dlp exited with code 1'',
       ffmpeg_times = [], ffmpeg_fails = None, rename_fails = None,
       stat_result = Inr 1000, rm_fails = Some ''EBUSY''\<rparr>
      ''job1'' ''https://youtu.be/abc''
      \<lparr>opt_quality = None, opt_removeWatermark = None, opt_format = None\<rparr>))"
proof -
  let ?ok = "\<lparr>mkdir_fails = None, ytdlp_percents = [100],
       ytdlp_result = Inr ''temp/processing/job1/video.mp4'',
       ffmpeg_times = [], ffmpeg_fails = None, rename_fails = None,
       stat_result = Inr 1000, rm_fails = Some ''EBUSY''\<rparr>"
  let ?ko = "\<lparr>mkdir_fails = None, ytdlp_percents = [],
       ytdlp_result = Inl ''yt-dlp exited with code 1'',
       ffmpeg_times = [], ffmpeg_fails = None, rename_fails = None,
       stat_result = Inr 1000, rm_fails = Some ''EBUSY''\<rparr>"
  let ?o = "\<lparr>opt_quality = None, opt_removeWatermark = None, opt_format = None\<rparr>"
  have f: "format_of ?o = ''mp4''" "removeWatermark_of ?o"
    by (simp_all add: format_of_def removeWatermark_of_def)
  have out: "outputPath_of ''job1'' ''mp4'' = ''temp/downloads/job1.mp4''"
    by (simp add: outputPath_of_def DOWNLOADS_DIR_def TEMP_DIR_def join_def)
  from scratch_directory_always_removed
    [of "''job1''" ?ok "''https://youtu.be/abc''" ?o "''EBUSY''" "Some ''EBUSY''"]
  have 1: "fst (downloadAndProcessVideo ?ok ''job1'' ''https://youtu.be/abc'' ?o) =
     Inr \<lparr>success = True, filePath = ''temp/downloads/job1.mp4'', r_fileSize = 1000,
          r_downloadUrl = ''/downloads/job1.mp4''\<rparr>"
    by (simp add: f out)
  from scratch_directory_always_removed
    [of "''job1''" ?ko "''https://youtu.be/abc''" ?o "''EBUSY''" "Some ''EBUSY''"]
  have 2: "fst (downloadAndProcessVideo ?ko ''job1'' ''https://youtu.be/abc'' ?o) =
     Inl ''yt-dlp exited with code 1''"
    and 3: "Rm ''temp/processing/job1'' True True
      \<in> set (snd (downloadAndProcessVideo ?ko ''job1'' ''https://youtu.be/abc'' ?o))"
    by simp_all
  from 1 2 3 show ?thesis by (intro conjI)
qed

section \<open>Properties of the Job Store and the Job Runner\<close>

subsection \<open>The fields of the state after each operation\<close>

lemma update_job_fields [simp]:
  "queues (update_job st jid f) = queues st"
  "timers (update_job st jid f) = timers st"
  "isProcessing (update_job st jid f) = isProcessing st"
  "running (update_job st jid f) = running st"
  "waiting (update_job st jid f) = waiting st"
  by (simp_all add: update_job_def waiting_def split: option.splits)

lemma update_job_jobs:
  "jobs (update_job st jid f) k = (if k = jid then map_option f (jobs st k) else jobs st k)"
  by (simp add: update_job_def split: option.splits)

lemma drain_Nil:
  "waiting st = [] \<Longrightarrow>
   drain st processVideo now = st\<lparr>isProcessing := False, running := None\<rparr>"
  by (simp add: drain_def waiting_def split: option.splits list.splits)

lemma drain_Cons:
  "waiting st = job # rest \<Longrightarrow>
   drain st processVideo now =
     (update_job (st\<lparr>queues := (queues st)(processVideo \<mapsto> rest)\<rparr>)
        (jobId (data job)) (mark_processing now))
       \<lparr>running := Some (processVideo, begin_attempt job)\<rparr>"
  by (simp add: drain_def waiting_def processJob_begin_def Let_def
      split: option.splits list.splits)

lemma waiting_simps [simp]:
  "waiting (st\<lparr>jobs := js\<rparr>) = waiting st"
  "waiting (st\<lparr>timers := ts\<rparr>) = waiting st"
  "waiting (st\<lparr>isProcessing := b\<rparr>) = waiting st"
  "waiting (st\<lparr>running := r\<rparr>) = waiting st"
  "waiting (st\<lparr>queues := (queues st)(processVideo \<mapsto> q)\<rparr>) = q"
  by (simp_all add: waiting_def)

lemma drain_waiting: "waiting (drain st processVideo now) = tl (waiting st)"
  by (cases "waiting st") (simp_all add: drain_Nil drain_Cons)

lemma drain_timers: "timers (drain st processVideo now) = timers st"
  by (cases "waiting st") (simp_all add: drain_Nil drain_Cons)

lemma drain_queues_other:
  "qn \<noteq> processVideo \<Longrightarrow> queues (drain st processVideo now) qn = queues st qn"
  by (cases "waiting st") (simp_all add: drain_Nil drain_Cons update_job_def split: option.splits)

lemma drain_running:
  "running (drain st processVideo now) =
     (case waiting st of [] \<Rightarrow> None | job # rest \<Rightarrow> Some (processVideo, begin_attempt job))"
  by (cases "waiting st") (simp_all add: drain_Nil drain_Cons)

lemma drain_isProcessing:
  "isProcessing (drain st processVideo now) = (if waiting st = [] then False else isProcessing st)"
  by (cases "waiting st") (simp_all add: drain_Nil drain_Cons)

lemma drain_jobs:
  "jobs (drain st processVideo now) k =
     (case waiting st of
        [] \<Rightarrow> jobs st k
      | job # rest \<Rightarrow>
          if k = jobId (data job) then map_option (mark_processing now) (jobs st k) else jobs st k)"
  by (cases "waiting st") (simp_all add: drain_Nil drain_Cons update_job_jobs)

lemma add_eq:
  "add st processVideo d opts now =
     (if isProcessing st
      then st\<lparr>queues := (queues st)(processVideo \<mapsto> waiting st @ [new_job d opts now])\<rparr>
      else drain (st\<lparr>queues := (queues st)(processVideo \<mapsto> waiting st @ [new_job d opts now]),
                    isProcessing := True\<rparr>) processVideo now)"
  by (simp add: add_def processQueue_def waiting_def Let_def split: option.splits)

lemma add_waiting:
  "waiting (add st processVideo d opts now) =
     (if isProcessing st then waiting st @ [new_job d opts now]
      else tl (waiting st @ [new_job d opts now]))"
  by (simp add: add_eq drain_waiting)

lemma add_timers: "timers (add st processVideo d opts now) = timers st"
  by (simp add: add_eq drain_timers)

lemma add_queues_other:
  "qn \<noteq> processVideo \<Longrightarrow> queues (add st processVideo d opts now) qn = queues st qn"
  by (simp add: add_eq drain_queues_other)

lemma add_running:
  "running (add st processVideo d opts now) =
     (if isProcessing st then running st
      else Some (processVideo, begin_attempt (hd (waiting st @ [new_job d opts now]))))"
  by (cases "waiting st") (simp_all add: add_eq drain_running)

lemma add_isProcessing: "isProcessing (add st processVideo d opts now)"
  by (simp add: add_eq drain_isProcessing)

lemma add_jobs:
  "jobs (add st processVideo d opts now) k =
     (if \<not> isProcessing st \<and> k = jobId (data (hd (waiting st @ [new_job d opts now])))
      then map_option (mark_processing now) (jobs st k) else jobs st k)"
  by (cases "waiting st") (simp_all add: add_eq drain_jobs)

lemma settle_resolve_eq:
  "running st = Some (processVideo, job) \<Longrightarrow>
   settle_resolve st result now =
     drain (update_job st (jobId (data job)) (mark_completed result now)) processVideo now"
  by (simp add: settle_resolve_def processJob_resolve_def)

lemma settle_reject_eq:
  "running st = Some (processVideo, job) \<Longrightarrow>
   settle_reject st msg now =
     drain (if retry_allowed job
            then st\<lparr>timers := timers st @
                   [\<lparr>t_delay = backoffDelay job, t_data = data job, t_options = options job\<rparr>]\<rparr>
            else update_job st (jobId (data job)) (mark_failed msg now)) processVideo now"
  by (simp add: settle_reject_def processJob_reject_def)

lemma new_job_data [simp]: "data (new_job d opts now) = d"
  by (simp add: new_job_def)

lemma begin_attempt_data [simp]: "data (begin_attempt job) = data job"
  by (simp add: begin_attempt_def)

subsection \<open>The identifiers the runner holds\<close>

lemma in_flight_running:
  "in_flight st = (case running st of None \<Rightarrow> [] | Some (qn, job) \<Rightarrow> [jobId (data job)])"
  by (simp add: in_flight_def)

subsection \<open>The invariant\<close>

lemma sys_invI:
  assumes "\<And>queueName job. running st = Some (queueName, job) \<Longrightarrow> queueName = processVideo"
    and "isProcessing st \<longleftrightarrow> running st \<noteq> None"
    and "distinct (tokens st)"
    and "\<And>jid j. jobs st jid = Some j \<Longrightarrow> status j = Completed \<or> status j = Failed \<Longrightarrow>
           jid \<notin> set (tokens st)"
    and "\<And>jid j. jid \<in> set (in_flight st) \<Longrightarrow> jobs st jid = Some j \<Longrightarrow>
           status j = Processing \<or> status j = Cancelled"
  shows "sys_inv st"
  unfolding sys_inv_def using assms by blast

lemma sys_inv_running: "sys_inv st \<Longrightarrow> running st = Some (qn, job) \<Longrightarrow> qn = processVideo"
  unfolding sys_inv_def by blast

lemma sys_inv_flag: "sys_inv st \<Longrightarrow> isProcessing st \<longleftrightarrow> running st \<noteq> None"
  unfolding sys_inv_def by blast

lemma sys_inv_distinct: "sys_inv st \<Longrightarrow> distinct (tokens st)"
  unfolding sys_inv_def by blast

lemma sys_inv_settled:
  "sys_inv st \<Longrightarrow> jobs st jid = Some j \<Longrightarrow> status j = Completed \<or> status j = Failed \<Longrightarrow>
   jid \<notin> set (tokens st)"
  unfolding sys_inv_def by blast

lemma sys_inv_in_flight:
  "sys_inv st \<Longrightarrow> jid \<in> set (in_flight st) \<Longrightarrow> jobs st jid = Some j \<Longrightarrow>
   status j = Processing \<or> status j = Cancelled"
  unfolding sys_inv_def by blast

lemma mark_status [simp]:
  "status (mark_processing now j) = Processing"
  "status (mark_progress p m now j) = status j"
  "status (mark_completed result now j) = Completed"
  "status (mark_failed msg now j) = Failed"
  "status (mark_cancelled now j) = Cancelled"
  by (simp_all add: mark_processing_def mark_progress_def mark_completed_def mark_failed_def
      mark_cancelled_def)

text \<open>
  The loop head establishes the invariant from a state in which the flag is set, the
  waiting and retrying jobs are distinct and none of them is completed or failed.
\<close>

lemma drain_inv:
  assumes flag: "isProcessing st"
    and dist: "distinct (map (\<lambda>job. jobId (data job)) (waiting st) @
                 map (\<lambda>t. jobId (t_data t)) (timers st))"
    and settled: "\<And>jid j. jobs st jid = Some j \<Longrightarrow> status j = Completed \<or> status j = Failed \<Longrightarrow>
        jid \<notin> set (map (\<lambda>job. jobId (data job)) (waiting st) @
                 map (\<lambda>t. jobId (t_data t)) (timers st))"
  shows "sys_inv (drain st processVideo now)"
proof (cases "waiting st")
  case Nil
  let ?st' = "drain st processVideo now"
  have tok: "tokens ?st' = map (\<lambda>t. jobId (t_data t)) (timers st)"
    using Nil by (simp add: tokens_def drain_Nil in_flight_def)
  have jobs': "jobs ?st' = jobs st"
    using Nil by (simp add: drain_Nil)
  have run: "running ?st' = None" "isProcessing ?st' = False"
    using Nil by (simp_all add: drain_Nil)
  show ?thesis
  proof (rule sys_invI)
    show "distinct (tokens ?st')"
      using dist Nil by (simp add: tok)
  next
    fix jid j
    assume "jobs ?st' jid = Some j" and s: "status j = Completed \<or> status j = Failed"
    then have "jobs st jid = Some j" by (simp add: jobs')
    from settled [OF this s] Nil show "jid \<notin> set (tokens ?st')"
      by (simp add: tok)
  qed (simp_all add: run in_flight_def)
next
  case (Cons job rest)
  let ?st' = "drain st processVideo now"
  have run: "running ?st' = Some (processVideo, begin_attempt job)"
    using Cons by (simp add: drain_running)
  have tok: "tokens ?st' =
      map (\<lambda>job. jobId (data job)) rest @ map (\<lambda>t. jobId (t_data t)) (timers st) @ [jobId (data job)]"
    using Cons by (simp add: tokens_def drain_waiting drain_timers in_flight_def run)
  have jobs': "\<And>k. jobs ?st' k =
      (if k = jobId (data job) then map_option (mark_processing now) (jobs st k) else jobs st k)"
    using Cons by (simp add: drain_jobs)
  show ?thesis
  proof (rule sys_invI)
    show "\<And>qn j. running ?st' = Some (qn, j) \<Longrightarrow> qn = processVideo"
      by (simp add: run)
    show "isProcessing ?st' \<longleftrightarrow> running ?st' \<noteq> None"
      using flag Cons by (simp add: run drain_isProcessing)
    show "distinct (tokens ?st')"
      using dist Cons by (auto simp: tok)
  next
    fix jid j
    assume j: "jobs ?st' jid = Some j" and s: "status j = Completed \<or> status j = Failed"
    have ne: "jid \<noteq> jobId (data job)"
    proof
      assume "jid = jobId (data job)"
      with j jobs' obtain j0 where "j = mark_processing now j0" by auto
      with s show False by simp
    qed
    with j jobs' have "jobs st jid = Some j" by simp
    from settled [OF this s] ne Cons show "jid \<notin> set (tokens ?st')"
      by (auto simp: tok)
  next
    fix jid j
    assume "jid \<in> set (in_flight ?st')" and j: "jobs ?st' jid = Some j"
    then have "jid = jobId (data job)" by (simp add: in_flight_def run)
    with j jobs' obtain j0 where "j = mark_processing now j0" by auto
    then show "status j = Processing \<or> status j = Cancelled" by simp
  qed
qed

lemma tokens_simps [simp]:
  "tokens (st\<lparr>jobs := js\<rparr>) = tokens st"
  "tokens (st\<lparr>isProcessing := b\<rparr>) = tokens st"
  "in_flight (st\<lparr>jobs := js\<rparr>) = in_flight st"
  "in_flight (st\<lparr>isProcessing := b\<rparr>) = in_flight st"
  "in_flight (st\<lparr>timers := ts\<rparr>) = in_flight st"
  "in_flight (st\<lparr>queues := qs\<rparr>) = in_flight st"
  "tokens (update_job st jid f) = tokens st"
  "in_flight (update_job st jid f) = in_flight st"
  by (simp_all add: tokens_def in_flight_def)

lemma add_inv:
  assumes inv: "sys_inv st"
    and fresh: "jobId d \<notin> set (tokens st)"
    and unsettled: "\<And>j. jobs st (jobId d) = Some j \<Longrightarrow> status j \<noteq> Completed \<and> status j \<noteq> Failed"
  shows "sys_inv (add st processVideo d opts now)"
proof (cases "isProcessing st")
  case True
  let ?st' = "st\<lparr>queues := (queues st)(processVideo \<mapsto> waiting st @ [new_job d opts now])\<rparr>"
  have eq: "add st processVideo d opts now = ?st'"
    using True by (simp add: add_eq)
  have tok: "set (tokens ?st') = insert (jobId d) (set (tokens st))"
    by (auto simp: tokens_def)
  have dist: "distinct (tokens ?st')"
    using sys_inv_distinct [OF inv] fresh by (auto simp: tokens_def)
  show ?thesis
    unfolding eq
  proof (rule sys_invI)
    show "\<And>qn job. running ?st' = Some (qn, job) \<Longrightarrow> qn = processVideo"
      using sys_inv_running [OF inv] by simp
    show "isProcessing ?st' \<longleftrightarrow> running ?st' \<noteq> None"
      using sys_inv_flag [OF inv] by simp
    show "distinct (tokens ?st')" by (rule dist)
  next
    fix jid j
    assume j: "jobs ?st' jid = Some j" and s: "status j = Completed \<or> status j = Failed"
    then have j0: "jobs st jid = Some j" by simp
    from sys_inv_settled [OF inv j0 s] have "jid \<notin> set (tokens st)" .
    moreover from unsettled j0 s have "jid \<noteq> jobId d" by auto
    ultimately show "jid \<notin> set (tokens ?st')" by (simp add: tok)
  next
    fix jid j
    assume "jid \<in> set (in_flight ?st')" and "jobs ?st' jid = Some j"
    then show "status j = Processing \<or> status j = Cancelled"
      using sys_inv_in_flight [OF inv, of jid j] by simp
  qed
next
  case False
  with sys_inv_flag [OF inv] have idle: "running st = None" by blast
  let ?st1 = "st\<lparr>queues := (queues st)(processVideo \<mapsto> waiting st @ [new_job d opts now]),
                isProcessing := True\<rparr>"
  have eq: "add st processVideo d opts now = drain ?st1 processVideo now"
    using False by (simp add: add_eq)
  have tok: "tokens st =
      map (\<lambda>job. jobId (data job)) (waiting st) @ map (\<lambda>t. jobId (t_data t)) (timers st)"
    using idle by (simp add: tokens_def in_flight_def)
  show ?thesis
    unfolding eq
  proof (rule drain_inv)
    show "isProcessing ?st1" by simp
    show "distinct (map (\<lambda>job. jobId (data job)) (waiting ?st1) @
        map (\<lambda>t. jobId (t_data t)) (timers ?st1))"
      using sys_inv_distinct [OF inv] fresh by (auto simp: tok)
  next
    fix jid j
    assume j: "jobs ?st1 jid = Some j" and s: "status j = Completed \<or> status j = Failed"
    then have j0: "jobs st jid = Some j" by simp
    from sys_inv_settled [OF inv j0 s] have "jid \<notin> set (tokens st)" .
    moreover from unsettled j0 s have "jid \<noteq> jobId d" by auto
    ultimately show "jid \<notin> set (map (\<lambda>job. jobId (data job)) (waiting ?st1) @
        map (\<lambda>t. jobId (t_data t)) (timers ?st1))"
      by (auto simp: tok)
  qed
qed

lemma settle_update_inv:
  assumes inv: "sys_inv st"
    and run: "running st = Some (qn, job)"
    and fin: "\<And>j. status (f j) = Completed \<or> status (f j) = Failed"
  shows "sys_inv (drain (update_job st (jobId (data job)) f) processVideo now)"
proof (rule drain_inv)
  let ?st1 = "update_job st (jobId (data job)) f"
  have tok: "tokens st =
      map (\<lambda>job. jobId (data job)) (waiting st) @ map (\<lambda>t. jobId (t_data t)) (timers st) @
      [jobId (data job)]"
    using run by (simp add: tokens_def in_flight_def)
  show "isProcessing ?st1"
    using sys_inv_flag [OF inv] run by simp
  show "distinct (map (\<lambda>job. jobId (data job)) (waiting ?st1) @
      map (\<lambda>t. jobId (t_data t)) (timers ?st1))"
    using sys_inv_distinct [OF inv] by (simp add: tok)
  fix jid j
  assume j: "jobs ?st1 jid = Some j" and s: "status j = Completed \<or> status j = Failed"
  show "jid \<notin> set (map (\<lambda>job. jobId (data job)) (waiting ?st1) @
      map (\<lambda>t. jobId (t_data t)) (timers ?st1))"
  proof (cases "jid = jobId (data job)")
    case True
    with sys_inv_distinct [OF inv] show ?thesis by (auto simp: tok)
  next
    case False
    with j have "jobs st jid = Some j" by (simp add: update_job_jobs)
    from sys_inv_settled [OF inv this s] show ?thesis by (simp add: tok)
  qed
qed

lemma settle_resolve_inv:
  assumes inv: "sys_inv st" and run: "running st = Some (qn, job)"
  shows "sys_inv (settle_resolve st result now)"
proof -
  from sys_inv_running [OF inv run] have qn: "qn = processVideo" .
  with run have "settle_resolve st result now =
      drain (update_job st (jobId (data job)) (mark_completed result now)) processVideo now"
    by (simp add: settle_resolve_eq)
  moreover have "sys_inv (drain (update_job st (jobId (data job)) (mark_completed result now))
      processVideo now)"
    by (rule settle_update_inv [OF inv run]) simp
  ultimately show ?thesis by simp
qed

lemma settle_reject_inv:
  assumes inv: "sys_inv st" and run: "running st = Some (qn, job)"
  shows "sys_inv (settle_reject st msg now)"
proof -
  from sys_inv_running [OF inv run] have qn: "qn = processVideo" .
  show ?thesis
  proof (cases "retry_allowed job")
    case False
    with run qn have "settle_reject st msg now =
        drain (update_job st (jobId (data job)) (mark_failed msg now)) processVideo now"
      by (simp add: settle_reject_eq)
    moreover have "sys_inv (drain (update_job st (jobId (data job)) (mark_failed msg now))
        processVideo now)"
      by (rule settle_update_inv [OF inv run]) simp
    ultimately show ?thesis by simp
  next
    case True
    let ?t = "\<lparr>t_delay = backoffDelay job, t_data = data job, t_options = options job\<rparr>"
    let ?st1 = "st\<lparr>timers := timers st @ [?t]\<rparr>"
    from True run qn have eq: "settle_reject st msg now = drain ?st1 processVideo now"
      by (simp add: settle_reject_eq)
    have tok: "tokens st =
        map (\<lambda>job. jobId (data job)) (waiting st) @ map (\<lambda>t. jobId (t_data t)) (timers st) @
        [jobId (data job)]"
      using run by (simp add: tokens_def in_flight_def)
    show ?thesis
      unfolding eq
    proof (rule drain_inv)
      show "isProcessing ?st1"
        using sys_inv_flag [OF inv] run by simp
      show "distinct (map (\<lambda>job. jobId (data job)) (waiting ?st1) @
          map (\<lambda>t. jobId (t_data t)) (timers ?st1))"
        using sys_inv_distinct [OF inv] by (simp add: tok)
      fix jid j
      assume "jobs ?st1 jid = Some j" and s: "status j = Completed \<or> status j = Failed"
      then have "jobs st jid = Some j" by simp
      from sys_inv_settled [OF inv this s]
      show "jid \<notin> set (map (\<lambda>job. jobId (data job)) (waiting ?st1) @
          map (\<lambda>t. jobId (t_data t)) (timers ?st1))"
        by (simp add: tok)
    qed
  qed
qed

lemma in_flight_tokens: "jid \<in> set (in_flight st) \<Longrightarrow> jid \<in> set (tokens st)"
  by (simp add: tokens_def)

lemma jobs_update_inv:
  assumes inv: "sys_inv st"
    and tok: "tokens st' = tokens st" "in_flight st' = in_flight st"
      "running st' = running st" "isProcessing st' = isProcessing st"
    and jobs': "\<And>k j'. jobs st' k = Some j' \<Longrightarrow>
        \<exists>j. jobs st k = Some j \<and> (status j' = status j \<or> status j' = Cancelled)"
  shows "sys_inv st'"
proof (rule sys_invI)
  show "\<And>qn job. running st' = Some (qn, job) \<Longrightarrow> qn = processVideo"
    using sys_inv_running [OF inv] tok by simp
  show "isProcessing st' \<longleftrightarrow> running st' \<noteq> None"
    using sys_inv_flag [OF inv] tok by simp
  show "distinct (tokens st')"
    using sys_inv_distinct [OF inv] tok by simp
next
  fix jid j'
  assume j': "jobs st' jid = Some j'" and s: "status j' = Completed \<or> status j' = Failed"
  from jobs' [OF j'] obtain j where j: "jobs st jid = Some j"
    and "status j' = status j \<or> status j' = Cancelled"
    by blast
  with s have "status j = Completed \<or> status j = Failed" by auto
  from sys_inv_settled [OF inv j this] show "jid \<notin> set (tokens st')"
    by (simp add: tok)
next
  fix jid j'
  assume f: "jid \<in> set (in_flight st')" and j': "jobs st' jid = Some j'"
  from jobs' [OF j'] obtain j where j: "jobs st jid = Some j"
    and c: "status j' = status j \<or> status j' = Cancelled"
    by blast
  from f have "jid \<in> set (in_flight st)" by (simp add: tok)
  from sys_inv_in_flight [OF inv this j] c
  show "status j' = Processing \<or> status j' = Cancelled" by auto
qed

lemma onProgress_inv: "sys_inv st \<Longrightarrow> sys_inv (onProgress st jid p m now)"
proof (rule jobs_update_inv)
  fix k j'
  assume "jobs (onProgress st jid p m now) k = Some j'"
  then show "\<exists>j. jobs st k = Some j \<and> (status j' = status j \<or> status j' = Cancelled)"
    by (auto simp: onProgress_def update_job_jobs split: if_splits)
qed (simp_all add: onProgress_def)

lemma deleteJob_inv: "sys_inv st \<Longrightarrow> sys_inv (snd (deleteJob st jid now))"
proof (rule jobs_update_inv)
  fix k j'
  assume "jobs (snd (deleteJob st jid now)) k = Some j'"
  then show "\<exists>j. jobs st k = Some j \<and> (status j' = status j \<or> status j' = Cancelled)"
    by (auto simp: deleteJob_def split: option.splits if_splits)
qed (simp_all add: deleteJob_def split: option.splits)

lemma queue_cleanup_inv: "sys_inv st \<Longrightarrow> sys_inv (queue_cleanup st now)"
proof (rule jobs_update_inv)
  fix k j'
  assume "jobs (queue_cleanup st now) k = Some j'"
  then show "\<exists>j. jobs st k = Some j \<and> (status j' = status j \<or> status j' = Cancelled)"
    by (auto simp: queue_cleanup_def split: option.splits if_splits)
qed (simp_all add: queue_cleanup_def)

lemma timer_fire_inv:
  assumes inv: "sys_inv st" and i: "i < length (timers st)"
  shows "sys_inv (timer_fire st i now)"
proof -
  let ?t = "timers st ! i"
  let ?st1 = "st\<lparr>timers := take i (timers st) @ drop (Suc i) (timers st)\<rparr>"
  have eq: "timer_fire st i now = add ?st1 processVideo (t_data ?t) (t_options ?t) now"
    using i by (simp add: timer_fire_def Let_def)
  have split: "timers st = take i (timers st) @ ?t # drop (Suc i) (timers st)"
    using i by (rule id_take_nth_drop)
  let ?W = "map (\<lambda>job. jobId (data job)) (waiting st)"
  let ?A = "map (\<lambda>t. jobId (t_data t)) (take i (timers st))"
  let ?B = "map (\<lambda>t. jobId (t_data t)) (drop (Suc i) (timers st))"
  have "map (\<lambda>t. jobId (t_data t)) (timers st) = ?A @ jobId (t_data ?t) # ?B"
    by (subst split) simp
  then have tok: "tokens st = ?W @ (?A @ jobId (t_data ?t) # ?B) @ in_flight st"
    by (simp add: tokens_def)
  have tok1: "tokens ?st1 = ?W @ (?A @ ?B) @ in_flight st"
    by (simp add: tokens_def)
  have d: "distinct (?W @ (?A @ jobId (t_data ?t) # ?B) @ in_flight st)"
    using sys_inv_distinct [OF inv] by (simp only: tok)
  have sub: "set (tokens ?st1) \<subseteq> set (tokens st)"
    unfolding tok tok1 by auto
  have dist1: "distinct (tokens ?st1)"
    unfolding tok1 using d by auto
  have fresh: "jobId (t_data ?t) \<notin> set (tokens ?st1)"
    unfolding tok1 using d by auto
  have mem: "jobId (t_data ?t) \<in> set (tokens st)"
    unfolding tok by simp
  have inv1: "sys_inv ?st1"
  proof (rule sys_invI)
    show "\<And>qn job. running ?st1 = Some (qn, job) \<Longrightarrow> qn = processVideo"
      using sys_inv_running [OF inv] by simp
    show "isProcessing ?st1 \<longleftrightarrow> running ?st1 \<noteq> None"
      using sys_inv_flag [OF inv] by simp
    show "distinct (tokens ?st1)" by (rule dist1)
  next
    fix jid j
    assume "jobs ?st1 jid = Some j" and s: "status j = Completed \<or> status j = Failed"
    then have "jobs st jid = Some j" by simp
    from sys_inv_settled [OF inv this s] sub show "jid \<notin> set (tokens ?st1)" by blast
  next
    fix jid j
    assume "jid \<in> set (in_flight ?st1)" and "jobs ?st1 jid = Some j"
    then show "status j = Processing \<or> status j = Cancelled"
      using sys_inv_in_flight [OF inv, of jid j] by simp
  qed
  show ?thesis
    unfolding eq
  proof (rule add_inv [OF inv1 fresh])
    fix j
    assume "jobs ?st1 (jobId (t_data ?t)) = Some j"
    then have "jobs st (jobId (t_data ?t)) = Some j" by simp
    with sys_inv_settled [OF inv this] mem
    show "status j \<noteq> Completed \<and> status j \<noteq> Failed" by blast
  qed
qed

lemma postDownload_invalid:
  "\<not> body_valid v b \<Longrightarrow> postDownload v st b jid ip now = (400, st)"
  by (simp add: postDownload_def)

lemma postDownload_valid:
  "body_valid v b \<Longrightarrow>
   postDownload v st b jid ip now =
     (200, add (st\<lparr>jobs := (jobs st)(jid \<mapsto> job_record b jid ip now)\<rparr>)
             processVideo (job_payload b jid) route_options now)"
  by (simp add: postDownload_def)

lemma job_record_status [simp]: "status (job_record b jid ip now) = Queued"
  by (simp add: job_record_def)

lemma job_payload_jobId [simp]: "jobId (job_payload b jid) = jid"
  by (simp add: job_payload_def)

lemma store_insert_inv:
  assumes inv: "sys_inv st" and fresh: "jid \<notin> set (tokens st)" and q: "status r = Queued"
  shows "sys_inv (st\<lparr>jobs := (jobs st)(jid \<mapsto> r)\<rparr>)"
proof (rule sys_invI)
  let ?st' = "st\<lparr>jobs := (jobs st)(jid \<mapsto> r)\<rparr>"
  show "\<And>qn job. running ?st' = Some (qn, job) \<Longrightarrow> qn = processVideo"
    using sys_inv_running [OF inv] by simp
  show "isProcessing ?st' \<longleftrightarrow> running ?st' \<noteq> None"
    using sys_inv_flag [OF inv] by simp
  show "distinct (tokens ?st')"
    using sys_inv_distinct [OF inv] by simp
  show "\<And>k j. jobs ?st' k = Some j \<Longrightarrow> status j = Completed \<or> status j = Failed \<Longrightarrow>
      k \<notin> set (tokens ?st')"
    using sys_inv_settled [OF inv] q by (auto split: if_splits)
  show "\<And>k j. k \<in> set (in_flight ?st') \<Longrightarrow> jobs ?st' k = Some j \<Longrightarrow>
      status j = Processing \<or> status j = Cancelled"
    using sys_inv_in_flight [OF inv] in_flight_tokens [of _ st] fresh
    by (auto split: if_splits)
qed

lemma postDownload_inv:
  assumes inv: "sys_inv st" and fresh: "jid \<notin> set (tokens st)"
  shows "sys_inv (snd (postDownload v st b jid ip now))"
proof (cases "body_valid v b")
  case False
  with inv show ?thesis by (simp add: postDownload_invalid)
next
  case True
  show ?thesis
    unfolding postDownload_valid [OF True] snd_conv
  proof (rule add_inv)
    show "sys_inv (st\<lparr>jobs := (jobs st)(jid \<mapsto> job_record b jid ip now)\<rparr>)"
      by (rule store_insert_inv [OF inv fresh]) simp
  qed (use fresh in simp_all)
qed

lemma step_inv: "step v st st' \<Longrightarrow> sys_inv st \<Longrightarrow> sys_inv st'"
proof (induction rule: step.induct)
  case (submit jid st b ip now)
  then show ?case by (simp add: postDownload_inv)
next
  case (progress st jid p m now)
  then show ?case by (simp add: onProgress_inv)
next
  case (resolve st queueName job result now)
  then show ?case by (simp add: settle_resolve_inv)
next
  case (reject st queueName job msg now)
  then show ?case by (simp add: settle_reject_inv)
next
  case (fire i st now)
  then show ?case by (simp add: timer_fire_inv)
next
  case (delete st jid now)
  then show ?case by (simp add: deleteJob_inv)
next
  case (cleanup st now)
  then show ?case by (simp add: queue_cleanup_inv)
qed

lemma init_inv: "sys_inv init_sys"
  by (rule sys_invI) (simp_all add: init_sys_def tokens_def waiting_def in_flight_def)

lemma reachable_inv: "reachable v st \<Longrightarrow> sys_inv st"
  by (induction rule: reachable.induct) (simp_all add: init_inv step_inv)

subsection \<open>Status changes\<close>

lemma ct_refl: "code_transition a a"
  by (simp add: code_transition_def spec_transition_def)

lemma ct_to_processing: "a \<noteq> Completed \<Longrightarrow> a \<noteq> Failed \<Longrightarrow> code_transition a Processing"
  by (cases a) (simp_all add: code_transition_def spec_transition_def)

lemma ct_to_settled:
  "a = Processing \<or> a = Cancelled \<Longrightarrow> b = Completed \<or> b = Failed \<Longrightarrow> code_transition a b"
  by (auto simp: code_transition_def spec_transition_def)

lemma ct_to_cancelled: "a = Processing \<or> a = Queued \<Longrightarrow> code_transition a Cancelled"
  by (auto simp: code_transition_def spec_transition_def)

lemma ct_from_settled:
  "code_transition a b \<Longrightarrow> a = Completed \<or> a = Failed \<Longrightarrow> b = a"
  by (auto simp: code_transition_def spec_transition_def)

lemma waiting_tokens: "job \<in> set (waiting st) \<Longrightarrow> jobId (data job) \<in> set (tokens st)"
  by (simp add: tokens_def)

lemma drain_change:
  assumes j: "jobs st k = Some j"
    and unsettled: "\<And>job. job \<in> set (waiting st) \<Longrightarrow> k = jobId (data job) \<Longrightarrow>
        status j \<noteq> Completed \<and> status j \<noteq> Failed"
  shows "\<exists>j'. jobs (drain st processVideo now) k = Some j' \<and>
      code_transition (status j) (status j')"
proof (cases "waiting st")
  case Nil
  with j have "jobs (drain st processVideo now) k = Some j" by (simp add: drain_jobs)
  then show ?thesis using ct_refl by blast
next
  case (Cons job rest)
  show ?thesis
  proof (cases "k = jobId (data job)")
    case True
    with Cons j have "jobs (drain st processVideo now) k = Some (mark_processing now j)"
      by (simp add: drain_jobs)
    moreover from unsettled [of job] Cons True
    have "code_transition (status j) (status (mark_processing now j))"
      by (simp add: ct_to_processing)
    ultimately show ?thesis by blast
  next
    case False
    with Cons j have "jobs (drain st processVideo now) k = Some j" by (simp add: drain_jobs)
    then show ?thesis using ct_refl by blast
  qed
qed

lemma settle_update_change:
  assumes inv: "sys_inv st"
    and run: "running st = Some (qn, job)"
    and fin: "\<And>j. status (f j) = Completed \<or> status (f j) = Failed"
    and j: "jobs st k = Some j"
  shows "\<exists>j'. jobs (drain (update_job st (jobId (data job)) f) processVideo now) k = Some j' \<and>
      code_transition (status j) (status j')"
proof (cases "k = jobId (data job)")
  case True
  let ?st1 = "update_job st (jobId (data job)) f"
  have tok: "tokens st =
      map (\<lambda>job. jobId (data job)) (waiting st) @ map (\<lambda>t. jobId (t_data t)) (timers st) @
      [jobId (data job)]"
    using run by (simp add: tokens_def in_flight_def)
  have "jobId (data job) \<notin> (\<lambda>job. jobId (data job)) ` set (waiting st)"
    using sys_inv_distinct [OF inv] by (simp add: tok)
  then have notw: "\<And>w. w \<in> set (waiting st) \<Longrightarrow> jobId (data w) \<noteq> k"
    unfolding True by (rule contrapos_nn) (erule rev_image_eqI, simp)
  have "k \<in> set (in_flight st)" using run True by (simp add: in_flight_def)
  from sys_inv_in_flight [OF inv this j] have s: "status j = Processing \<or> status j = Cancelled" .
  have j1: "jobs ?st1 k = Some (f j)" using j True by (simp add: update_job_jobs)
  have "jobs (drain ?st1 processVideo now) k = Some (f j)"
  proof (cases "waiting st")
    case Nil
    with j1 show ?thesis by (simp add: drain_jobs)
  next
    case (Cons w rest)
    with notw [of w] have "k \<noteq> jobId (data w)" by auto
    with Cons j1 show ?thesis by (simp add: drain_jobs)
  qed
  moreover from s fin [of j] have "code_transition (status j) (status (f j))"
    by (rule ct_to_settled)
  ultimately show ?thesis by blast
next
  case False
  let ?st1 = "update_job st (jobId (data job)) f"
  from False j have j1: "jobs ?st1 k = Some j" by (simp add: update_job_jobs)
  show ?thesis
  proof (rule drain_change [OF j1])
    fix w
    assume "w \<in> set (waiting ?st1)" and k: "k = jobId (data w)"
    then have "k \<in> set (tokens st)" by (simp add: waiting_tokens)
    with sys_inv_settled [OF inv j] show "status j \<noteq> Completed \<and> status j \<noteq> Failed"
      by blast
  qed
qed

lemma settle_resolve_change:
  assumes inv: "sys_inv st" and run: "running st = Some (qn, job)" and j: "jobs st k = Some j"
  shows "\<exists>j'. jobs (settle_resolve st result now) k = Some j' \<and>
      code_transition (status j) (status j')"
proof -
  from sys_inv_running [OF inv run] have "qn = processVideo" .
  with run have "settle_resolve st result now =
      drain (update_job st (jobId (data job)) (mark_completed result now)) processVideo now"
    by (simp add: settle_resolve_eq)
  moreover have "\<exists>j'. jobs (drain (update_job st (jobId (data job)) (mark_completed result now))
      processVideo now) k = Some j' \<and> code_transition (status j) (status j')"
    by (rule settle_update_change [OF inv run _ j]) simp
  ultimately show ?thesis by simp
qed

lemma settle_reject_change:
  assumes inv: "sys_inv st" and run: "running st = Some (qn, job)" and j: "jobs st k = Some j"
  shows "\<exists>j'. jobs (settle_reject st msg now) k = Some j' \<and>
      code_transition (status j) (status j')"
proof -
  from sys_inv_running [OF inv run] have qn: "qn = processVideo" .
  show ?thesis
  proof (cases "retry_allowed job")
    case False
    with run qn have "settle_reject st msg now =
        drain (update_job st (jobId (data job)) (mark_failed msg now)) processVideo now"
      by (simp add: settle_reject_eq)
    moreover have "\<exists>j'. jobs (drain (update_job st (jobId (data job)) (mark_failed msg now))
        processVideo now) k = Some j' \<and> code_transition (status j) (status j')"
      by (rule settle_update_change [OF inv run _ j]) simp
    ultimately show ?thesis by simp
  next
    case True
    let ?st1 = "st\<lparr>timers := timers st @
        [\<lparr>t_delay = backoffDelay job, t_data = data job, t_options = options job\<rparr>]\<rparr>"
    from True run qn have eq: "settle_reject st msg now = drain ?st1 processVideo now"
      by (simp add: settle_reject_eq)
    have j1: "jobs ?st1 k = Some j" using j by simp
    show ?thesis
      unfolding eq
    proof (rule drain_change [OF j1])
      fix w
      assume "w \<in> set (waiting ?st1)" and k: "k = jobId (data w)"
      then have "k \<in> set (tokens st)" by (simp add: waiting_tokens)
      with sys_inv_settled [OF inv j] show "status j \<noteq> Completed \<and> status j \<noteq> Failed"
        by blast
    qed
  qed
qed

lemma add_change:
  assumes inv: "sys_inv st"
    and unsettled: "\<And>j. jobs st (jobId d) = Some j \<Longrightarrow> status j \<noteq> Completed \<and> status j \<noteq> Failed"
    and j: "jobs st k = Some j"
  shows "\<exists>j'. jobs (add st processVideo d opts now) k = Some j' \<and>
      code_transition (status j) (status j')"
proof (cases "\<not> isProcessing st \<and> k = jobId (data (hd (waiting st @ [new_job d opts now])))")
  case False
  with j have "jobs (add st processVideo d opts now) k = Some j"
    by (auto simp: add_jobs)
  then show ?thesis using ct_refl by blast
next
  case True
  with j have 1: "jobs (add st processVideo d opts now) k = Some (mark_processing now j)"
    by (simp add: add_jobs)
  have "status j \<noteq> Completed \<and> status j \<noteq> Failed"
  proof (cases "waiting st")
    case Nil
    with True have "k = jobId d" by simp
    with unsettled j show ?thesis by simp
  next
    case (Cons w rest)
    with True have "k = jobId (data w)" "w \<in> set (waiting st)" by simp_all
    then have "k \<in> set (tokens st)" by (simp add: waiting_tokens)
    with sys_inv_settled [OF inv j] show ?thesis by blast
  qed
  then have "code_transition (status j) (status (mark_processing now j))"
    by (simp add: ct_to_processing)
  with 1 show ?thesis by blast
qed

lemma timer_fire_change:
  assumes inv: "sys_inv st" and i: "i < length (timers st)" and j: "jobs st k = Some j"
  shows "\<exists>j'. jobs (timer_fire st i now) k = Some j' \<and> code_transition (status j) (status j')"
proof -
  let ?t = "timers st ! i"
  let ?st1 = "st\<lparr>timers := take i (timers st) @ drop (Suc i) (timers st)\<rparr>"
  have eq: "timer_fire st i now = add ?st1 processVideo (t_data ?t) (t_options ?t) now"
    using i by (simp add: timer_fire_def Let_def)
  have wt: "waiting ?st1 = waiting st" by simp
  have mem: "jobId (t_data ?t) \<in> set (tokens st)"
    using i by (auto simp: tokens_def)
  have settled1: "\<And>w j0. w \<in> set (waiting st) \<Longrightarrow> jobs st (jobId (data w)) = Some j0 \<Longrightarrow>
      status j0 \<noteq> Completed \<and> status j0 \<noteq> Failed"
    using sys_inv_settled [OF inv] waiting_tokens by blast
  show ?thesis
  proof (cases "\<not> isProcessing st \<and> k = jobId (data (hd (waiting st @ [new_job (t_data ?t) (t_options ?t) now])))")
    case False
    with j have "jobs (timer_fire st i now) k = Some j"
      by (auto simp: eq add_jobs)
    then show ?thesis using ct_refl by blast
  next
    case True
    with j have 1: "jobs (timer_fire st i now) k = Some (mark_processing now j)"
      by (simp add: eq add_jobs)
    have "status j \<noteq> Completed \<and> status j \<noteq> Failed"
    proof (cases "waiting st")
      case Nil
      with True have "k = jobId (t_data ?t)" by simp
      with mem sys_inv_settled [OF inv j] show ?thesis by blast
    next
      case (Cons w rest)
      with True have "k = jobId (data w)" "w \<in> set (waiting st)" by simp_all
      with settled1 j show ?thesis by blast
    qed
    then have "code_transition (status j) (status (mark_processing now j))"
      by (simp add: ct_to_processing)
    with 1 show ?thesis by blast
  qed
qed

lemma postDownload_change:
  assumes inv: "sys_inv st" and fresh: "jid \<notin> dom (jobs st)" "jid \<notin> set (tokens st)"
    and j: "jobs st k = Some j"
  shows "\<exists>j'. jobs (snd (postDownload v st b jid ip now)) k = Some j' \<and>
      code_transition (status j) (status j')"
proof (cases "body_valid v b")
  case False
  with j show ?thesis using ct_refl by (auto simp: postDownload_invalid)
next
  case True
  let ?r = "job_record b jid ip now"
  let ?st0 = "st\<lparr>jobs := (jobs st)(jid \<mapsto> ?r)\<rparr>"
  have inv0: "sys_inv ?st0"
    by (rule store_insert_inv [OF inv fresh(2)]) simp
  from j fresh(1) have "k \<noteq> jid" by auto
  with j have j0: "jobs ?st0 k = Some j" by simp
  show ?thesis
    unfolding postDownload_valid [OF True] snd_conv
    by (rule add_change [OF inv0 _ j0]) simp
qed

lemma deleteJob_change:
  assumes j: "jobs st k = Some j"
  shows "(jobs (snd (deleteJob st jid now)) k = None \<and> terminal (status j)) \<or>
      (\<exists>j'. jobs (snd (deleteJob st jid now)) k = Some j' \<and> code_transition (status j) (status j'))"
proof (cases "k = jid")
  case False
  with j have "jobs (snd (deleteJob st jid now)) k = Some j"
    by (simp add: deleteJob_def split: option.splits)
  then show ?thesis using ct_refl by blast
next
  case True
  show ?thesis
  proof (cases "status j = Processing \<or> status j = Queued")
    case True
    with j \<open>k = jid\<close> have "jobs (snd (deleteJob st jid now)) k = Some (mark_cancelled now j)"
      by (simp add: deleteJob_def)
    moreover from True have "code_transition (status j) (status (mark_cancelled now j))"
      by (simp add: ct_to_cancelled)
    ultimately show ?thesis by blast
  next
    case False
    with j \<open>k = jid\<close> have "jobs (snd (deleteJob st jid now)) k = None"
      by (simp add: deleteJob_def)
    moreover from False have "terminal (status j)"
      by (cases "status j") (simp_all add: terminal_def)
    ultimately show ?thesis by blast
  qed
qed

lemma queue_cleanup_change:
  assumes j: "jobs st k = Some j"
  shows "(jobs (queue_cleanup st now) k = None \<and> terminal (status j)) \<or>
      (\<exists>j'. jobs (queue_cleanup st now) k = Some j' \<and> code_transition (status j) (status j'))"
  using j ct_refl by (auto simp: queue_cleanup_def terminal_def)

lemma onProgress_change:
  assumes j: "jobs st k = Some j"
  shows "\<exists>j'. jobs (onProgress st jid p m now) k = Some j' \<and> code_transition (status j) (status j')"
  using j ct_refl by (auto simp: onProgress_def update_job_jobs)

lemma step_change:
  assumes "step v st st'" and inv: "sys_inv st" and j: "jobs st k = Some j"
  shows "(jobs st' k = None \<and> terminal (status j)) \<or>
      (\<exists>j'. jobs st' k = Some j' \<and> code_transition (status j) (status j'))"
  using assms
proof (induction rule: step.induct)
  case (submit jid st b ip now)
  then show ?case using postDownload_change by blast
next
  case (progress st jid p m now)
  then show ?case using onProgress_change by blast
next
  case (resolve st queueName job result now)
  then show ?case using settle_resolve_change by blast
next
  case (reject st queueName job msg now)
  then show ?case using settle_reject_change by blast
next
  case (fire i st now)
  then show ?case using timer_fire_change by blast
next
  case (delete st jid now)
  then show ?case using deleteJob_change by blast
next
  case (cleanup st now)
  then show ?case using queue_cleanup_change by blast
qed

text \<open>What the settling of the job in flight writes to the record of that job.\<close>

lemma in_flight_not_waiting:
  assumes inv: "sys_inv st" and run: "running st = Some (qn, job)"
    and w: "w \<in> set (waiting st)"
  shows "jobId (data job) \<noteq> jobId (data w)"
proof -
  have tok: "tokens st =
      map (\<lambda>job. jobId (data job)) (waiting st) @ map (\<lambda>t. jobId (t_data t)) (timers st) @
      [jobId (data job)]"
    using run by (simp add: tokens_def in_flight_def)
  have "jobId (data job) \<notin> (\<lambda>job. jobId (data job)) ` set (waiting st)"
    using sys_inv_distinct [OF inv] by (simp add: tok)
  with w show ?thesis
    by (rule_tac notI) (erule notE, erule ssubst, erule imageI)
qed

lemma drain_jobs_in_flight:
  assumes inv: "sys_inv st" and run: "running st = Some (qn, job)"
    and w: "waiting st1 = waiting st"
  shows "jobs (drain st1 processVideo now) (jobId (data job)) = jobs st1 (jobId (data job))"
proof (cases "waiting st")
  case Nil
  with w show ?thesis by (simp add: drain_jobs)
next
  case (Cons x rest)
  then have "x \<in> set (waiting st)" by simp
  from in_flight_not_waiting [OF inv run this] Cons w show ?thesis
    by (simp add: drain_jobs)
qed

lemma settle_resolve_in_flight:
  assumes inv: "sys_inv st" and run: "running st = Some (qn, job)"
  shows "jobs (settle_resolve st result now) (jobId (data job)) =
      map_option (mark_completed result now) (jobs st (jobId (data job)))"
proof -
  from sys_inv_running [OF inv run] have qn: "qn = processVideo" .
  let ?st1 = "update_job st (jobId (data job)) (mark_completed result now)"
  from run qn have "settle_resolve st result now = drain ?st1 processVideo now"
    by (simp add: settle_resolve_eq)
  moreover have "jobs (drain ?st1 processVideo now) (jobId (data job)) =
      jobs ?st1 (jobId (data job))"
    by (rule drain_jobs_in_flight [OF inv run]) simp
  ultimately show ?thesis by (simp add: update_job_jobs)
qed

lemma settle_reject_in_flight:
  assumes inv: "sys_inv st" and run: "running st = Some (qn, job)"
  shows "jobs (settle_reject st msg now) (jobId (data job)) =
      (if retry_allowed job then jobs st (jobId (data job))
       else map_option (mark_failed msg now) (jobs st (jobId (data job))))"
proof -
  from sys_inv_running [OF inv run] have qn: "qn = processVideo" .
  show ?thesis
  proof (cases "retry_allowed job")
    case True
    let ?st1 = "st\<lparr>timers := timers st @
        [\<lparr>t_delay = backoffDelay job, t_data = data job, t_options = options job\<rparr>]\<rparr>"
    from True run qn have "settle_reject st msg now = drain ?st1 processVideo now"
      by (simp add: settle_reject_eq)
    moreover have "jobs (drain ?st1 processVideo now) (jobId (data job)) =
        jobs ?st1 (jobId (data job))"
      by (rule drain_jobs_in_flight [OF inv run]) simp
    ultimately show ?thesis using True by simp
  next
    case False
    let ?st1 = "update_job st (jobId (data job)) (mark_failed msg now)"
    from False run qn have "settle_reject st msg now = drain ?st1 processVideo now"
      by (simp add: settle_reject_eq)
    moreover have "jobs (drain ?st1 processVideo now) (jobId (data job)) =
        jobs ?st1 (jobId (data job))"
      by (rule drain_jobs_in_flight [OF inv run]) simp
    ultimately show ?thesis using False by (simp add: update_job_jobs)
  qed
qed

subsection \<open>Submission\<close>

lemma postDownload_store:
  assumes "body_valid v b"
  shows "\<exists>r. jobs (snd (postDownload v st b jid ip now)) jid = Some r \<and>
      quality r = body_quality b \<and> removeWatermark r = body_removeWatermark b \<and>
      format r = body_format b"
proof -
  let ?st0 = "st\<lparr>jobs := (jobs st)(jid \<mapsto> job_record b jid ip now)\<rparr>"
  have "jobs (add ?st0 processVideo (job_payload b jid) route_options now) jid =
      Some (job_record b jid ip now) \<or>
      jobs (add ?st0 processVideo (job_payload b jid) route_options now) jid =
      Some (mark_processing now (job_record b jid ip now))"
    by (simp add: add_jobs)
  then show ?thesis
    unfolding postDownload_valid [OF assms] snd_conv
    by (auto simp: job_record_def mark_processing_def)
qed

lemma postDownload_item:
  assumes "body_valid v b"
  shows "\<exists>job. (job \<in> set (waiting (snd (postDownload v st b jid ip now))) \<or>
        running (snd (postDownload v st b jid ip now)) = Some (processVideo, job)) \<and>
      data job = job_payload b jid \<and> options job = options (new_job (job_payload b jid) route_options now)"
proof -
  let ?st0 = "st\<lparr>jobs := (jobs st)(jid \<mapsto> job_record b jid ip now)\<rparr>"
  let ?nj = "new_job (job_payload b jid) route_options now"
  let ?st' = "add ?st0 processVideo (job_payload b jid) route_options now"
  have "?nj \<in> set (waiting ?st') \<or> running ?st' = Some (processVideo, begin_attempt ?nj)"
  proof (cases "isProcessing st")
    case True
    then show ?thesis by (simp add: add_waiting)
  next
    case False
    show ?thesis
    proof (cases "waiting st")
      case Nil
      with False show ?thesis by (simp add: add_running)
    next
      case (Cons w rest)
      with False show ?thesis by (simp add: add_waiting)
    qed
  qed
  then show ?thesis
    unfolding postDownload_valid [OF assms] snd_conv
  proof
    assume "?nj \<in> set (waiting ?st')"
    then have "(?nj \<in> set (waiting ?st') \<or> running ?st' = Some (processVideo, ?nj)) \<and>
        data ?nj = job_payload b jid \<and> options ?nj = options ?nj"
      by simp
    then show "\<exists>job. (job \<in> set (waiting ?st') \<or> running ?st' = Some (processVideo, job)) \<and>
        data job = job_payload b jid \<and> options job = options ?nj"
      by (rule exI [of _ ?nj])
  next
    assume "running ?st' = Some (processVideo, begin_attempt ?nj)"
    then have "(begin_attempt ?nj \<in> set (waiting ?st') \<or>
          running ?st' = Some (processVideo, begin_attempt ?nj)) \<and>
        data (begin_attempt ?nj) = job_payload b jid \<and> options (begin_attempt ?nj) = options ?nj"
      by (simp add: begin_attempt_def)
    then show "\<exists>job. (job \<in> set (waiting ?st') \<or> running ?st' = Some (processVideo, job)) \<and>
        data job = job_payload b jid \<and> options job = options ?nj"
      by (rule exI [of _ "begin_attempt ?nj"])
  qed
qed

lemma postDownload_idle:
  assumes "body_valid v b" and "\<not> isProcessing st" and "waiting st = []" and "timers st = []"
  shows "first_attempt (snd (postDownload v st b jid ip now)) (job_payload b jid)"
proof -
  let ?st0 = "st\<lparr>jobs := (jobs st)(jid \<mapsto> job_record b jid ip now)\<rparr>"
  let ?st' = "add ?st0 processVideo (job_payload b jid) route_options now"
  have "running ?st' = Some (processVideo, begin_attempt (new_job (job_payload b jid) route_options now))"
    using assms by (simp add: add_running)
  moreover have "waiting ?st' = []" "timers ?st' = []" "isProcessing ?st'"
    using assms by (simp_all add: add_waiting add_timers add_isProcessing)
  moreover have "jobs ?st' jid = Some (mark_processing now (job_record b jid ip now))"
    using assms by (simp add: add_jobs)
  ultimately show ?thesis
    unfolding postDownload_valid [OF assms(1)] snd_conv
    by (simp add: first_attempt_def begin_attempt_def new_job_def route_options_def
        spread_default_def mark_processing_def job_record_def)
qed

subsection \<open>Retries\<close>

lemma reject_first_attempt:
  assumes "first_attempt st d"
  shows "map t_delay (timers (settle_reject st msg now)) = [5000]"
    and "map t_data (timers (settle_reject st msg now)) = [d]"
    and "\<forall>t \<in> set (timers (settle_reject st msg now)).
           attempts (t_options t) = Some 3 \<and>
           backoff (t_options t) = Some \<lparr>b_type = ''exponential'', b_delay = Some 5000\<rparr>"
    and "running (settle_reject st msg now) = None"
    and "\<not> isProcessing (settle_reject st msg now)"
    and "waiting (settle_reject st msg now) = []"
    and "jobs (settle_reject st msg now) = jobs st"
proof -
  from assms obtain job where run: "running st = Some (processVideo, job)"
    and job: "data job = d" "attempt job = 1" "attempts (options job) = Some 3"
      "backoff (options job) = Some \<lparr>b_type = ''exponential'', b_delay = Some 5000\<rparr>"
    and idle: "waiting st = []" "timers st = []"
    by (auto simp: first_attempt_def split: option.splits)
  have retry: "retry_allowed job" using job by (simp add: retry_allowed_def)
  have delay: "backoffDelay job = 5000" using job by (simp add: backoffDelay_def js_or_def)
  let ?st1 = "st\<lparr>timers := timers st @
      [\<lparr>t_delay = backoffDelay job, t_data = data job, t_options = options job\<rparr>]\<rparr>"
  have eq: "settle_reject st msg now = drain ?st1 processVideo now"
    using run retry by (simp add: settle_reject_eq)
  have w: "waiting ?st1 = []" using idle by simp
  have eq': "settle_reject st msg now = ?st1\<lparr>isProcessing := False, running := None\<rparr>"
    unfolding eq by (rule drain_Nil [OF w])
  show "map t_delay (timers (settle_reject st msg now)) = [5000]"
    and "map t_data (timers (settle_reject st msg now)) = [d]"
    and "\<forall>t \<in> set (timers (settle_reject st msg now)).
           attempts (t_options t) = Some 3 \<and>
           backoff (t_options t) = Some \<lparr>b_type = ''exponential'', b_delay = Some 5000\<rparr>"
    and "running (settle_reject st msg now) = None"
    and "\<not> isProcessing (settle_reject st msg now)"
    and "waiting (settle_reject st msg now) = []"
    and "jobs (settle_reject st msg now) = jobs st"
    using idle job delay by (simp_all add: eq')
qed

lemma fail_and_retry_first_attempt:
  assumes fa: "first_attempt st d"
  shows "first_attempt (fail_and_retry msg now st) d"
proof -
  let ?st1 = "settle_reject st msg now"
  note r = reject_first_attempt [OF fa, of msg now]
  from r(1) obtain t where ts: "timers ?st1 = [t]" by (cases "timers ?st1") auto
  with r(1,2,3) have t: "t_delay t = 5000" "t_data t = d" "attempts (t_options t) = Some 3"
    "backoff (t_options t) = Some \<lparr>b_type = ''exponential'', b_delay = Some 5000\<rparr>"
    by simp_all
  let ?st2 = "?st1\<lparr>timers := take 0 (timers ?st1) @ drop (Suc 0) (timers ?st1)\<rparr>"
  have eq: "fail_and_retry msg now st = add ?st2 processVideo d (t_options t) now"
    using ts t by (simp add: fail_and_retry_def timer_fire_def Let_def)
  have idle2: "\<not> isProcessing ?st2" "waiting ?st2 = []" "timers ?st2 = []"
    using r ts by simp_all
  have jobs2: "jobs ?st2 = jobs st" using r by simp
  from fa have rec: "map_option status (jobs st (jobId d)) = Some Processing"
    "map_option error (jobs st (jobId d)) = Some None"
    by (auto simp: first_attempt_def split: option.splits)
  have "running (add ?st2 processVideo d (t_options t) now) =
      Some (processVideo, begin_attempt (new_job d (t_options t) now))"
    using idle2 by (simp add: add_running)
  moreover have "waiting (add ?st2 processVideo d (t_options t) now) = []"
    "timers (add ?st2 processVideo d (t_options t) now) = []"
    "isProcessing (add ?st2 processVideo d (t_options t) now)"
    using idle2 by (simp_all add: add_waiting add_timers add_isProcessing)
  moreover have "jobs (add ?st2 processVideo d (t_options t) now) (jobId d) =
      map_option (mark_processing now) (jobs st (jobId d))"
    using idle2 jobs2 by (simp add: add_jobs)
  ultimately show ?thesis
    unfolding eq using t rec
    by (auto simp: first_attempt_def begin_attempt_def new_job_def spread_default_def
        mark_processing_def)
qed

lemma failing_run_first_attempt:
  "first_attempt st d \<Longrightarrow> first_attempt (failing_run n msg now st) d"
  by (induction n arbitrary: st) (simp_all add: fail_and_retry_first_attempt)

subsection \<open>The example runs\<close>

lemma scn_body_valid: "body_valid scn_validators scn_body"
  by (simp add: body_valid_def scn_validators_def scn_body_def validateUrl_def
      SUPPORTED_PLATFORMS_def canonical_tiktok_domain canonical_tiktok_pattern)

lemma init_idle:
  "\<not> isProcessing init_sys" "waiting init_sys = []" "timers init_sys = []"
  "running init_sys = None" "jobs init_sys k = None" "tokens init_sys = []"
  by (simp_all add: init_sys_def waiting_def tokens_def in_flight_def)

lemma scn_submitted_fields:
  "jobs scn_submitted ''job1'' =
     Some (mark_processing 1000 (job_record scn_body ''job1'' ''203.0.113.7'' 1000))"
  "running scn_submitted =
     Some (processVideo, begin_attempt (new_job (job_payload scn_body ''job1'') route_options 1000))"
  "waiting scn_submitted = []"
  "timers scn_submitted = []"
  unfolding scn_submitted_def postDownload_valid [OF scn_body_valid] snd_conv
  by (simp_all add: add_jobs add_running add_waiting add_timers init_idle)

lemma scn_submitted_reachable: "reachable scn_validators scn_submitted"
  unfolding scn_submitted_def
proof (rule reachable.after [OF reachable.initial], rule step.submit)
  show "''job1'' \<notin> dom (jobs init_sys)" by (simp add: dom_def init_idle)
  show "''job1'' \<notin> set (tokens init_sys)" by (simp add: init_idle)
qed

lemma scn_cancelled_step: "step scn_validators scn_submitted scn_cancelled"
  unfolding scn_cancelled_def by (rule step.delete)

lemma scn_cancelled_fields:
  "jobs scn_cancelled ''job1'' =
     Some (mark_cancelled 2000 (mark_processing 1000 (job_record scn_body ''job1'' ''203.0.113.7'' 1000)))"
  "running scn_cancelled =
     Some (processVideo, begin_attempt (new_job (job_payload scn_body ''job1'') route_options 1000))"
  "waiting scn_cancelled = []"
  by (simp_all add: scn_cancelled_def deleteJob_def scn_submitted_fields)

lemma scn_overwritten_fields:
  "jobs scn_overwritten ''job1'' =
     Some (mark_completed scn_result 3000 (mark_cancelled 2000
       (mark_processing 1000 (job_record scn_body ''job1'' ''203.0.113.7'' 1000))))"
proof -
  have eq: "scn_overwritten =
      drain (update_job scn_cancelled
        (jobId (data (begin_attempt (new_job (job_payload scn_body ''job1'') route_options 1000))))
        (mark_completed scn_result 3000)) processVideo 3000"
    unfolding scn_overwritten_def
    by (rule settle_resolve_eq) (rule scn_cancelled_fields)
  show ?thesis
    unfolding eq
    by (simp add: drain_jobs scn_cancelled_fields update_job_jobs)
qed

lemma scn_completed_fields:
  "jobs scn_completed ''job1'' =
     Some (mark_completed scn_result 3000
       (mark_processing 1000 (job_record scn_body ''job1'' ''203.0.113.7'' 1000)))"
proof -
  have eq: "scn_completed =
      drain (update_job scn_submitted
        (jobId (data (begin_attempt (new_job (job_payload scn_body ''job1'') route_options 1000))))
        (mark_completed scn_result 3000)) processVideo 3000"
    unfolding scn_completed_def
    by (rule settle_resolve_eq) (rule scn_submitted_fields)
  show ?thesis
    unfolding eq
    by (simp add: drain_jobs scn_submitted_fields update_job_jobs)
qed

lemma scn_completed_reachable: "reachable scn_validators scn_completed"
  unfolding scn_completed_def
  by (rule reachable.after [OF scn_submitted_reachable])
     (rule step.resolve [OF scn_submitted_fields(2)])

text \<open>
  Claim C1. The code does not meet it. \<^verbatim>\<open>JobQueue.add\<close> gives every Work Item
  \<^verbatim>\<open>attempt: 0\<close>, the retry callback goes through \<^verbatim>\<open>add\<close>, and so after any number
  \<open>n\<close> of failed attempts and fired retries the Work Item in flight again has the
  attempt counter 1 against a maximum of 3. When it fails too, one more retry is
  scheduled, after the base delay of 5000 ms and never twice that, and the record of the
  job stays processing without an error message: a job whose processing always fails is
  attempted a fourth time and beyond, and never ends as failed.
\<close>

theorem retry_counter_reset_on_requeue:
  assumes "body_valid v b"
  shows "first_attempt (failing_run n msg now (snd (postDownload v init_sys b jid ip now0)))
           (job_payload b jid) \<and>
         map t_delay (timers (settle_reject
           (failing_run n msg now (snd (postDownload v init_sys b jid ip now0))) msg now)) = [5000] \<and>
         map_option status (jobs (settle_reject
           (failing_run n msg now (snd (postDownload v init_sys b jid ip now0))) msg now) jid)
           = Some Processing \<and>
         map_option error (jobs (settle_reject
           (failing_run n msg now (snd (postDownload v init_sys b jid ip now0))) msg now) jid)
           = Some None"
proof -
  let ?st = "failing_run n msg now (snd (postDownload v init_sys b jid ip now0))"
  have "first_attempt (snd (postDownload v init_sys b jid ip now0)) (job_payload b jid)"
    by (rule postDownload_idle [OF assms]) (simp_all add: init_idle)
  then have fa: "first_attempt ?st (job_payload b jid)"
    by (rule failing_run_first_attempt)
  note r = reject_first_attempt [OF fa, of msg now]
  from fa have "map_option status (jobs ?st jid) = Some Processing"
    "map_option error (jobs ?st jid) = Some None"
    by (auto simp: first_attempt_def split: option.splits)
  with fa r(1) r(7) show ?thesis by simp
qed

theorem retry_counter_reset_on_requeue_witness:
  "first_attempt (failing_run 3 ''yt-dlp exited with code 1'' 9000 scn_submitted)
     (job_payload scn_body ''job1'') \<and>
   map t_delay (timers (settle_reject
     (failing_run 3 ''yt-dlp exited with code 1'' 9000 scn_submitted)
     ''yt-dlp exited with code 1'' 9000)) = [5000] \<and>
   map_option status (jobs (settle_reject
     (failing_run 3 ''yt-dlp exited with code 1'' 9000 scn_submitted)
     ''yt-dlp exited with code 1'' 9000) ''job1'') = Some Processing \<and>
   map_option error (jobs (settle_reject
     (failing_run 3 ''yt-dlp exited with code 1'' 9000 scn_submitted)
     ''yt-dlp exited with code 1'' 9000) ''job1'') = Some None"
  unfolding scn_submitted_def
  by (rule retry_counter_reset_on_requeue [OF scn_body_valid])

text \<open>
  Claim C2, as amended. In every run of the system (submissions, progress callbacks,
  processor results and errors, retry timers, cancel requests, the hourly store
  cleanup), one event changes the status of a Job Store record only along
  queued to processing, processing to completed or failed, queued or processing to
  cancelled, or, by the runner's writes, which test nothing but the presence of the
  record, cancelled to processing, completed or failed. A record is deleted only in a
  terminal state, and no event moves a completed or failed record to another status.
  In particular, when the processor call in flight returns a result, the record of its
  job, if the store still holds it, is set to completed whatever its status was,
  cancelled included; if the record has been deleted meanwhile, the result is dropped
  and no record appears. When the call in flight throws, the record is set to failed if
  no retry is allowed and is left as it is otherwise.
\<close>

theorem status_changes_of_runs:
  assumes "reachable v st"
  shows "(step v st st' \<and> jobs st jid = Some j \<longrightarrow>
            ((jobs st' jid = None \<and> terminal (status j)) \<or>
             (\<exists>j'. jobs st' jid = Some j' \<and> code_transition (status j) (status j'))) \<and>
            (status j = Completed \<or> status j = Failed \<longrightarrow>
               jobs st' jid = None \<or> map_option status (jobs st' jid) = Some (status j))) \<and>
         (running st = Some (qn, job) \<longrightarrow>
            jobs (settle_resolve st result now) (jobId (data job)) =
              map_option (mark_completed result now) (jobs st (jobId (data job))) \<and>
            jobs (settle_reject st msg now) (jobId (data job)) =
              (if retry_allowed job then jobs st (jobId (data job))
               else map_option (mark_failed msg now) (jobs st (jobId (data job)))) \<and>
            (jobs st (jobId (data job)) = Some r \<and> status r = Cancelled \<longrightarrow>
               map_option status (jobs (settle_resolve st result now) (jobId (data job)))
                 = Some Completed) \<and>
            (jobs st (jobId (data job)) = None \<longrightarrow>
               jobs (settle_resolve st result now) (jobId (data job)) = None \<and>
               jobs (settle_reject st msg now) (jobId (data job)) = None)) \<and>
         status (mark_completed result now r) = Completed \<and>
         status (mark_failed msg now r) = Failed"
proof -
  from assms have inv: "sys_inv st" by (rule reachable_inv)
  have A: "step v st st' \<and> jobs st jid = Some j \<longrightarrow>
            ((jobs st' jid = None \<and> terminal (status j)) \<or>
             (\<exists>j'. jobs st' jid = Some j' \<and> code_transition (status j) (status j'))) \<and>
            (status j = Completed \<or> status j = Failed \<longrightarrow>
               jobs st' jid = None \<or> map_option status (jobs st' jid) = Some (status j))"
  proof (intro impI, elim conjE)
    assume st: "step v st st'" and j: "jobs st jid = Some j"
    from step_change [OF st inv j]
    have 1: "(jobs st' jid = None \<and> terminal (status j)) \<or>
        (\<exists>j'. jobs st' jid = Some j' \<and> code_transition (status j) (status j'))" .
    have 2: "status j = Completed \<or> status j = Failed \<longrightarrow>
        jobs st' jid = None \<or> map_option status (jobs st' jid) = Some (status j)"
    proof
      assume s: "status j = Completed \<or> status j = Failed"
      from 1 show "jobs st' jid = None \<or> map_option status (jobs st' jid) = Some (status j)"
      proof
        assume "jobs st' jid = None \<and> terminal (status j)"
        then show ?thesis by simp
      next
        assume "\<exists>j'. jobs st' jid = Some j' \<and> code_transition (status j) (status j')"
        then obtain j' where j': "jobs st' jid = Some j'"
          and ct: "code_transition (status j) (status j')"
          by blast
        from ct_from_settled [OF ct s] j' show ?thesis by simp
      qed
    qed
    from 1 2 show "((jobs st' jid = None \<and> terminal (status j)) \<or>
             (\<exists>j'. jobs st' jid = Some j' \<and> code_transition (status j) (status j'))) \<and>
            (status j = Completed \<or> status j = Failed \<longrightarrow>
               jobs st' jid = None \<or> map_option status (jobs st' jid) = Some (status j))"
      by (rule conjI)
  qed
  have B: "running st = Some (qn, job) \<longrightarrow>
            jobs (settle_resolve st result now) (jobId (data job)) =
              map_option (mark_completed result now) (jobs st (jobId (data job))) \<and>
            jobs (settle_reject st msg now) (jobId (data job)) =
              (if retry_allowed job then jobs st (jobId (data job))
               else map_option (mark_failed msg now) (jobs st (jobId (data job)))) \<and>
            (jobs st (jobId (data job)) = Some r \<and> status r = Cancelled \<longrightarrow>
               map_option status (jobs (settle_resolve st result now) (jobId (data job)))
                 = Some Completed) \<and>
            (jobs st (jobId (data job)) = None \<longrightarrow>
               jobs (settle_resolve st result now) (jobId (data job)) = None \<and>
               jobs (settle_reject st msg now) (jobId (data job)) = None)"
  proof
    assume run: "running st = Some (qn, job)"
    note res = settle_resolve_in_flight [OF inv run, of result now]
    note rej = settle_reject_in_flight [OF inv run, of msg now]
    have c: "jobs st (jobId (data job)) = Some r \<and> status r = Cancelled \<longrightarrow>
        map_option status (jobs (settle_resolve st result now) (jobId (data job)))
          = Some Completed"
      by (simp add: res)
    have d: "jobs st (jobId (data job)) = None \<longrightarrow>
        jobs (settle_resolve st result now) (jobId (data job)) = None \<and>
        jobs (settle_reject st msg now) (jobId (data job)) = None"
      by (simp add: res rej)
    from res rej c d show "jobs (settle_resolve st result now) (jobId (data job)) =
              map_option (mark_completed result now) (jobs st (jobId (data job))) \<and>
            jobs (settle_reject st msg now) (jobId (data job)) =
              (if retry_allowed job then jobs st (jobId (data job))
               else map_option (mark_failed msg now) (jobs st (jobId (data job)))) \<and>
            (jobs st (jobId (data job)) = Some r \<and> status r = Cancelled \<longrightarrow>
               map_option status (jobs (settle_resolve st result now) (jobId (data job)))
                 = Some Completed) \<and>
            (jobs st (jobId (data job)) = None \<longrightarrow>
               jobs (settle_resolve st result now) (jobId (data job)) = None \<and>
               jobs (settle_reject st msg now) (jobId (data job)) = None)"
      by (intro conjI)
  qed
  have C: "status (mark_completed result now r) = Completed" by simp
  have D: "status (mark_failed msg now r) = Failed" by simp
  from A B C D show ?thesis by (intro conjI)
qed

theorem status_changes_of_runs_witness:
  "reachable scn_validators scn_completed \<and>
   step scn_validators scn_completed (snd (deleteJob scn_completed ''job1'' 4000)) \<and>
   status (mark_completed scn_result 3000
     (mark_processing 1000 (job_record scn_body ''job1'' ''203.0.113.7'' 1000))) = Completed \<and>
   (jobs (snd (deleteJob scn_completed ''job1'' 4000)) ''job1'' = None \<or>
    map_option status (jobs (snd (deleteJob scn_completed ''job1'' 4000)) ''job1'')
      = Some Completed) \<and>
   reachable scn_validators scn_cancelled \<and>
   running scn_cancelled =
     Some (processVideo, begin_attempt (new_job (job_payload scn_body ''job1'') route_options 1000)) \<and>
   map_option status (jobs scn_cancelled ''job1'') = Some Cancelled \<and>
   map_option status (jobs (settle_resolve scn_cancelled scn_result 3000) ''job1'')
     = Some Completed"
proof -
  let ?j = "mark_completed scn_result 3000
     (mark_processing 1000 (job_record scn_body ''job1'' ''203.0.113.7'' 1000))"
  let ?c = "mark_cancelled 2000
     (mark_processing 1000 (job_record scn_body ''job1'' ''203.0.113.7'' 1000))"
  let ?job = "begin_attempt (new_job (job_payload scn_body ''job1'') route_options 1000)"
  have st: "step scn_validators scn_completed (snd (deleteJob scn_completed ''job1'' 4000))"
    by (rule step.delete)
  have s: "status ?j = Completed" by simp
  from status_changes_of_runs [OF scn_completed_reachable,
      where st' = "snd (deleteJob scn_completed ''job1'' 4000)" and jid = "''job1''" and j = ?j]
  have "step scn_validators scn_completed (snd (deleteJob scn_completed ''job1'' 4000)) \<and>
      jobs scn_completed ''job1'' = Some ?j \<longrightarrow>
      ((jobs (snd (deleteJob scn_completed ''job1'' 4000)) ''job1'' = None \<and> terminal (status ?j)) \<or>
       (\<exists>j'. jobs (snd (deleteJob scn_completed ''job1'' 4000)) ''job1'' = Some j' \<and>
          code_transition (status ?j) (status j'))) \<and>
      (status ?j = Completed \<or> status ?j = Failed \<longrightarrow>
        jobs (snd (deleteJob scn_completed ''job1'' 4000)) ''job1'' = None \<or>
        map_option status (jobs (snd (deleteJob scn_completed ''job1'' 4000)) ''job1'')
          = Some (status ?j))"
    by (rule conjunct1)
  with st scn_completed_fields
  have "status ?j = Completed \<or> status ?j = Failed \<longrightarrow>
      jobs (snd (deleteJob scn_completed ''job1'' 4000)) ''job1'' = None \<or>
      map_option status (jobs (snd (deleteJob scn_completed ''job1'' 4000)) ''job1'')
        = Some (status ?j)"
    by simp
  with s have a: "jobs (snd (deleteJob scn_completed ''job1'' 4000)) ''job1'' = None \<or>
      map_option status (jobs (snd (deleteJob scn_completed ''job1'' 4000)) ''job1'')
        = Some Completed"
    by simp
  have r: "reachable scn_validators scn_cancelled"
    by (rule reachable.after [OF scn_submitted_reachable scn_cancelled_step])
  have jid: "jobId (data ?job) = ''job1''" by simp
  have c: "map_option status (jobs scn_cancelled ''job1'') = Some Cancelled"
    by (simp add: scn_cancelled_fields)
  note T = status_changes_of_runs [OF r,
      where qn = processVideo and job = ?job and r = ?c and result = scn_result and now = 3000,
      THEN conjunct2, THEN conjunct1, THEN mp, OF scn_cancelled_fields(2)]
  from T have "jobs (settle_resolve scn_cancelled scn_result 3000) (jobId (data ?job)) =
        map_option (mark_completed scn_result 3000) (jobs scn_cancelled (jobId (data ?job)))"
    by (rule conjunct1)
  then have b: "map_option status (jobs (settle_resolve scn_cancelled scn_result 3000) ''job1'')
     = Some Completed"
    unfolding jid by (simp add: scn_cancelled_fields)
  from scn_completed_reachable st s a r scn_cancelled_fields(2) c b
  show ?thesis by (intro conjI)
qed

text \<open>
  The claim as stated fails: a job cancelled while its processing runs is set to
  completed when the processor returns.
\<close>

theorem cancelled_job_completed_counterexample:
  "reachable scn_validators scn_cancelled \<and>
   step scn_validators scn_cancelled scn_overwritten \<and>
   map_option status (jobs scn_cancelled ''job1'') = Some Cancelled \<and>
   map_option status (jobs scn_overwritten ''job1'') = Some Completed \<and>
   \<not> spec_transition Cancelled Completed"
proof -
  have r: "reachable scn_validators scn_cancelled"
    by (rule reachable.after [OF scn_submitted_reachable scn_cancelled_step])
  have st: "step scn_validators scn_cancelled scn_overwritten"
    unfolding scn_overwritten_def by (rule step.resolve [OF scn_cancelled_fields(2)])
  have a: "map_option status (jobs scn_cancelled ''job1'') = Some Cancelled"
    by (simp add: scn_cancelled_fields)
  have b: "map_option status (jobs scn_overwritten ''job1'') = Some Completed"
    by (simp add: scn_overwritten_fields)
  have c: "\<not> spec_transition Cancelled Completed"
    by (simp add: spec_transition_def)
  from r st a b c show ?thesis by (intro conjI)
qed

text \<open>
  Claim C7. A cancel/delete request for a job whose status is completed or failed
  answers 200 and removes the record from the Job Store; it writes no status and
  touches neither the queue nor the timers nor the job in flight, so nothing is reopened
  or queued again. A request for an unknown identifier answers 404 and leaves the state
  as it is.
\<close>

theorem delete_terminal_or_unknown_job:
  "(jobs st jid = Some j \<and> (status j = Completed \<or> status j = Failed) \<longrightarrow>
      deleteJob st jid now = (200, st\<lparr>jobs := (jobs st)(jid := None)\<rparr>)) \<and>
   (jobs st jid = None \<longrightarrow> deleteJob st jid now = (404, st))"
  by (auto simp: deleteJob_def)

theorem delete_terminal_or_unknown_job_witness:
  "jobs scn_completed ''job1'' =
     Some (mark_completed scn_result 3000
       (mark_processing 1000 (job_record scn_body ''job1'' ''203.0.113.7'' 1000))) \<and>
   deleteJob scn_completed ''job1'' 4000 =
     (200, scn_completed\<lparr>jobs := (jobs scn_completed)(''job1'' := None)\<rparr>) \<and>
   jobs init_sys ''job2'' = None \<and>
   deleteJob init_sys ''job2'' 4000 = (404, init_sys)"
proof -
  let ?j = "mark_completed scn_result 3000
     (mark_processing 1000 (job_record scn_body ''job1'' ''203.0.113.7'' 1000))"
  have pre: "jobs scn_completed ''job1'' = Some ?j \<and> (status ?j = Completed \<or> status ?j = Failed)"
    by (simp add: scn_completed_fields)
  from delete_terminal_or_unknown_job [of scn_completed "''job1''" ?j 4000]
  have "jobs scn_completed ''job1'' = Some ?j \<and> (status ?j = Completed \<or> status ?j = Failed) \<longrightarrow>
      deleteJob scn_completed ''job1'' 4000 =
        (200, scn_completed\<lparr>jobs := (jobs scn_completed)(''job1'' := None)\<rparr>)"
    by (rule conjunct1)
  from this pre have 1: "deleteJob scn_completed ''job1'' 4000 =
        (200, scn_completed\<lparr>jobs := (jobs scn_completed)(''job1'' := None)\<rparr>)"
    by (rule mp)
  have none: "jobs init_sys ''job2'' = None" by (simp add: init_idle)
  from delete_terminal_or_unknown_job [of init_sys "''job2''" ?j 4000]
  have "jobs init_sys ''job2'' = None \<longrightarrow> deleteJob init_sys ''job2'' 4000 = (404, init_sys)"
    by (rule conjunct2)
  from this none have 2: "deleteJob init_sys ''job2'' 4000 = (404, init_sys)"
    by (rule mp)
  from scn_completed_fields 1 none 2 show ?thesis by (intro conjI)
qed

subsection \<open>Defaults of a submission\<close>

lemma processor_options_of:
  "quality_of (processor_options job) = d_quality (data job)"
  "removeWatermark_of (processor_options job) = d_removeWatermark (data job)"
  "format_of (processor_options job) = d_format (data job)"
  by (simp_all add: processor_options_def quality_of_def removeWatermark_of_def format_of_def)

lemma ffmpegArgs_watermark_mp4:
  "ffmpegArgs raw out True ''mp4'' =
     [''-i'', raw, ''-c:v'', ''libx264'', ''-preset'', ''medium'', ''-crf'', ''23'',
      ''-c:a'', ''aac'', ''-b:a'', ''128k'', ''-vf'', delogo_filters, ''-y'', out]"
  by (simp add: ffmpegArgs_def)

lemma delogo_filters_eq:
  "delogo_filters = ''delogo=x=10:y=10:w=100:h=50,delogo=x=10:y=h-60:w=100:h=50''"
  by (simp add: delogo_filters_def)

lemma outputPath_of_mp4: "outputPath_of jid ''mp4'' = ''temp/downloads/'' @ jid @ ''.mp4''"
  by (simp add: outputPath_of_def DOWNLOADS_DIR_def TEMP_DIR_def join_def)

lemma url_only_run:
  assumes d: "d_removeWatermark (data job) = True" "d_format (data job) = ''mp4''"
    and jid: "jobId (data job) = jid"
  shows "\<not> relocated (snd (run_processor w job))"
    and "transform_invoked (snd (run_processor w job)) \<longleftrightarrow>
      mkdir_fails w = None \<and> (\<exists>raw. ytdlp_result w = Inr raw)"
    and "mkdir_fails w = None \<Longrightarrow> ytdlp_result w = Inr raw \<Longrightarrow>
      FFmpeg [''-i'', raw, ''-c:v'', ''libx264'', ''-preset'', ''medium'', ''-crf'', ''23'',
              ''-c:a'', ''aac'', ''-b:a'', ''128k'',
              ''-vf'', ''delogo=x=10:y=10:w=100:h=50,delogo=x=10:y=h-60:w=100:h=50'',
              ''-y'', ''temp/downloads/'' @ jid @ ''.mp4'']
        \<in> set (snd (run_processor w job))"
proof -
  show "\<not> relocated (snd (run_processor w job))"
    using d by (simp add: run_processor_def relocated_iff processor_options_of)
  show "transform_invoked (snd (run_processor w job)) \<longleftrightarrow>
      mkdir_fails w = None \<and> (\<exists>raw. ytdlp_result w = Inr raw)"
    using d by (simp add: run_processor_def transform_invoked_iff processor_options_of)
next
  assume ok: "mkdir_fails w = None" "ytdlp_result w = Inr raw"
  have "removeWatermark_of (processor_options job) \<or> format_of (processor_options job) \<noteq> ''mp4''"
    using d by (simp add: processor_options_of)
  from transform_args [OF ok this, of jid "d_url (data job)"]
  have "FFmpeg (ffmpegArgs raw (outputPath_of jid ''mp4'') True ''mp4'')
        \<in> set (snd (run_processor w job))"
    using d jid by (simp add: run_processor_def processor_options_of)
  then show "FFmpeg [''-i'', raw, ''-c:v'', ''libx264'', ''-preset'', ''medium'', ''-crf'', ''23'',
              ''-c:a'', ''aac'', ''-b:a'', ''128k'',
              ''-vf'', ''delogo=x=10:y=10:w=100:h=50,delogo=x=10:y=h-60:w=100:h=50'',
              ''-y'', ''temp/downloads/'' @ jid @ ''.mp4'']
        \<in> set (snd (run_processor w job))"
    unfolding ffmpegArgs_watermark_mp4 delogo_filters_eq outputPath_of_mp4 .
qed

lemma postDownload_started:
  assumes "body_valid v b" and "\<not> isProcessing st" and "waiting st = []"
  shows "running (snd (postDownload v st b jid ip now)) =
      Some (processVideo, begin_attempt (new_job (job_payload b jid) route_options now))"
    and "jobs (snd (postDownload v st b jid ip now)) jid =
      Some (mark_processing now (job_record b jid ip now))"
  unfolding postDownload_valid [OF assms(1)] snd_conv
  using assms(2,3) by (simp_all add: add_running add_jobs)

lemma postDownload_queued:
  assumes "body_valid v b" and "isProcessing st"
  shows "waiting (snd (postDownload v st b jid ip now)) =
      waiting st @ [new_job (job_payload b jid) route_options now]"
  unfolding postDownload_valid [OF assms(1)] snd_conv
  using assms(2) by (simp add: add_waiting)

lemma job_payload_eq:
  "job_payload b jid =
     \<lparr>jobId = jid, d_url = b_url b, d_platform = detectPlatform (b_url b),
      d_quality = (case b_quality b of None \<Rightarrow> ''best'' | Some q \<Rightarrow> q),
      d_removeWatermark = (case b_removeWatermark b of None \<Rightarrow> True | Some x \<Rightarrow> x),
      d_format = (case b_format b of None \<Rightarrow> ''mp4'' | Some f \<Rightarrow> f)\<rparr>"
  by (simp add: job_payload_def body_quality_def body_removeWatermark_def body_format_def)

text \<open>
  Claim C10, as amended. An accepted download submission stores, for each optional field
  it omits, the default: quality \<^verbatim>\<open>best\<close>, removeWatermark true, format \<^verbatim>\<open>mp4\<close>,
  in the Job Store record and in the Work Item it hands to the runner. The runner starts
  that Work Item at once when it is idle (first attempt, record set to processing); when
  it is busy it puts the Work Item at the end of the queue and starts it, with the same
  payload, when the drain of the queue finds it at the head. For a submission that gives only a
  URL, the run of the Work Item never relocates the fetched file, and it invokes the
  transcode process exactly when the scratch directory was created and the fetch stage
  produced a file, then with the two \<^verbatim>\<open>delogo\<close> filters among the arguments. When
  the fetch stage fails, no transform stage runs.
\<close>

theorem submission_defaults:
  assumes "body_valid v b"
  shows
    "(\<exists>r. jobs (snd (postDownload v st b jid ip now)) jid = Some r \<and>
        (b_quality b = None \<longrightarrow> quality r = ''best'') \<and>
        (b_removeWatermark b = None \<longrightarrow> removeWatermark r) \<and>
        (b_format b = None \<longrightarrow> format r = ''mp4'')) \<and>
     (\<exists>job.
        data job =
          \<lparr>jobId = jid, d_url = b_url b, d_platform = detectPlatform (b_url b),
           d_quality = (case b_quality b of None \<Rightarrow> ''best'' | Some q \<Rightarrow> q),
           d_removeWatermark = (case b_removeWatermark b of None \<Rightarrow> True | Some x \<Rightarrow> x),
           d_format = (case b_format b of None \<Rightarrow> ''mp4'' | Some f \<Rightarrow> f)\<rparr> \<and>
        (isProcessing st \<longrightarrow>
           waiting (snd (postDownload v st b jid ip now)) = waiting st @ [job] \<and>
           attempt job = 0 \<and>
           (\<forall>s rest t. waiting s = job # rest \<longrightarrow>
              running (drain s processVideo t) = Some (processVideo, begin_attempt job))) \<and>
        (\<forall>w. run_processor w (begin_attempt job) = run_processor w job) \<and>
        (\<not> isProcessing st \<and> waiting st = [] \<longrightarrow>
           running (snd (postDownload v st b jid ip now)) = Some (processVideo, job) \<and>
           attempt job = 1 \<and>
           map_option status (jobs (snd (postDownload v st b jid ip now)) jid) = Some Processing) \<and>
        (b_quality b = None \<and> b_removeWatermark b = None \<and> b_format b = None \<longrightarrow>
           (\<forall>w. \<not> relocated (snd (run_processor w job)) \<and>
              (transform_invoked (snd (run_processor w job)) \<longleftrightarrow>
                 mkdir_fails w = None \<and> (\<exists>raw. ytdlp_result w = Inr raw))) \<and>
           (\<forall>w raw. mkdir_fails w = None \<and> ytdlp_result w = Inr raw \<longrightarrow>
              FFmpeg [''-i'', raw, ''-c:v'', ''libx264'', ''-preset'', ''medium'', ''-crf'', ''23'',
                      ''-c:a'', ''aac'', ''-b:a'', ''128k'',
                      ''-vf'', ''delogo=x=10:y=10:w=100:h=50,delogo=x=10:y=h-60:w=100:h=50'',
                      ''-y'', ''temp/downloads/'' @ jid @ ''.mp4'']
                \<in> set (snd (run_processor w job)))))"
proof (rule conjI)
  from postDownload_store [OF assms, of st jid ip now]
  obtain r where r: "jobs (snd (postDownload v st b jid ip now)) jid = Some r"
    "quality r = body_quality b" "removeWatermark r = body_removeWatermark b"
    "format r = body_format b"
    by (elim exE conjE)
  have "jobs (snd (postDownload v st b jid ip now)) jid = Some r \<and>
        (b_quality b = None \<longrightarrow> quality r = ''best'') \<and>
        (b_removeWatermark b = None \<longrightarrow> removeWatermark r) \<and>
        (b_format b = None \<longrightarrow> format r = ''mp4'')"
    using r by (simp add: body_quality_def body_removeWatermark_def body_format_def)
  then show "\<exists>r. jobs (snd (postDownload v st b jid ip now)) jid = Some r \<and>
        (b_quality b = None \<longrightarrow> quality r = ''best'') \<and>
        (b_removeWatermark b = None \<longrightarrow> removeWatermark r) \<and>
        (b_format b = None \<longrightarrow> format r = ''mp4'')"
    by (rule exI [of _ r])
next
  let ?st' = "snd (postDownload v st b jid ip now)"
  let ?nj = "new_job (job_payload b jid) route_options now"
  define job where "job = (if isProcessing st then ?nj else begin_attempt ?nj)"
  have dat: "data job = job_payload b jid" by (simp add: job_def)
  have f0: "data job =
          \<lparr>jobId = jid, d_url = b_url b, d_platform = detectPlatform (b_url b),
           d_quality = (case b_quality b of None \<Rightarrow> ''best'' | Some q \<Rightarrow> q),
           d_removeWatermark = (case b_removeWatermark b of None \<Rightarrow> True | Some x \<Rightarrow> x),
           d_format = (case b_format b of None \<Rightarrow> ''mp4'' | Some f \<Rightarrow> f)\<rparr>"
    unfolding dat by (rule job_payload_eq)
  have f1: "isProcessing st \<longrightarrow> waiting ?st' = waiting st @ [job] \<and> attempt job = 0 \<and>
      (\<forall>s rest t. waiting s = job # rest \<longrightarrow>
         running (drain s processVideo t) = Some (processVideo, begin_attempt job))"
  proof
    assume busy: "isProcessing st"
    then have "job = ?nj" by (simp add: job_def)
    with postDownload_queued [OF assms busy, of jid ip now]
    have a: "waiting ?st' = waiting st @ [job]" and b: "attempt job = 0"
      by (simp_all add: new_job_def)
    have c: "\<forall>s rest t. waiting s = job # rest \<longrightarrow>
         running (drain s processVideo t) = Some (processVideo, begin_attempt job)"
      by (simp add: drain_running)
    from a b c show "waiting ?st' = waiting st @ [job] \<and> attempt job = 0 \<and>
      (\<forall>s rest t. waiting s = job # rest \<longrightarrow>
         running (drain s processVideo t) = Some (processVideo, begin_attempt job))"
      by (intro conjI)
  qed
  have f1': "\<forall>w. run_processor w (begin_attempt job) = run_processor w job"
    by (simp add: run_processor_def processor_options_def)
  have f2: "\<not> isProcessing st \<and> waiting st = [] \<longrightarrow>
      running ?st' = Some (processVideo, job) \<and> attempt job = 1 \<and>
      map_option status (jobs ?st' jid) = Some Processing"
  proof
    assume idle: "\<not> isProcessing st \<and> waiting st = []"
    then have i1: "\<not> isProcessing st" and i2: "waiting st = []" by simp_all
    from i1 have j: "job = begin_attempt ?nj" by (simp add: job_def)
    note p = postDownload_started [OF assms i1 i2, of jid ip now]
    have a: "running ?st' = Some (processVideo, job)" unfolding j by (rule p(1))
    have b: "attempt job = 1" unfolding j by (simp add: begin_attempt_def new_job_def)
    have c: "map_option status (jobs ?st' jid) = Some Processing"
      unfolding p(2) by simp
    from a b c show "running ?st' = Some (processVideo, job) \<and> attempt job = 1 \<and>
      map_option status (jobs ?st' jid) = Some Processing"
      by (intro conjI)
  qed
  have f3: "b_quality b = None \<and> b_removeWatermark b = None \<and> b_format b = None \<longrightarrow>
      (\<forall>w. \<not> relocated (snd (run_processor w job)) \<and>
         (transform_invoked (snd (run_processor w job)) \<longleftrightarrow>
            mkdir_fails w = None \<and> (\<exists>raw. ytdlp_result w = Inr raw))) \<and>
      (\<forall>w raw. mkdir_fails w = None \<and> ytdlp_result w = Inr raw \<longrightarrow>
         FFmpeg [''-i'', raw, ''-c:v'', ''libx264'', ''-preset'', ''medium'', ''-crf'', ''23'',
                 ''-c:a'', ''aac'', ''-b:a'', ''128k'',
                 ''-vf'', ''delogo=x=10:y=10:w=100:h=50,delogo=x=10:y=h-60:w=100:h=50'',
                 ''-y'', ''temp/downloads/'' @ jid @ ''.mp4'']
           \<in> set (snd (run_processor w job)))"
  proof
    assume omitted: "b_quality b = None \<and> b_removeWatermark b = None \<and> b_format b = None"
    then have d: "d_removeWatermark (data job) = True" "d_format (data job) = ''mp4''"
      and k: "jobId (data job) = jid"
      unfolding f0 by simp_all
    have g1: "\<forall>w. \<not> relocated (snd (run_processor w job)) \<and>
         (transform_invoked (snd (run_processor w job)) \<longleftrightarrow>
            mkdir_fails w = None \<and> (\<exists>raw. ytdlp_result w = Inr raw))"
    proof
      fix w :: world
      from url_only_run(1) [OF d k, of w] url_only_run(2) [OF d k, of w]
      show "\<not> relocated (snd (run_processor w job)) \<and>
         (transform_invoked (snd (run_processor w job)) \<longleftrightarrow>
            mkdir_fails w = None \<and> (\<exists>raw. ytdlp_result w = Inr raw))"
        by (rule conjI)
    qed
    have g2: "\<forall>w raw. mkdir_fails w = None \<and> ytdlp_result w = Inr raw \<longrightarrow>
         FFmpeg [''-i'', raw, ''-c:v'', ''libx264'', ''-preset'', ''medium'', ''-crf'', ''23'',
                 ''-c:a'', ''aac'', ''-b:a'', ''128k'',
                 ''-vf'', ''delogo=x=10:y=10:w=100:h=50,delogo=x=10:y=h-60:w=100:h=50'',
                 ''-y'', ''temp/downloads/'' @ jid @ ''.mp4'']
           \<in> set (snd (run_processor w job))"
    proof (intro allI impI)
      fix w :: world and raw :: string
      assume "mkdir_fails w = None \<and> ytdlp_result w = Inr raw"
      then have ok1: "mkdir_fails w = None" and ok2: "ytdlp_result w = Inr raw" by simp_all
      show "FFmpeg [''-i'', raw, ''-c:v'', ''libx264'', ''-preset'', ''medium'', ''-crf'', ''23'',
                 ''-c:a'', ''aac'', ''-b:a'', ''128k'',
                 ''-vf'', ''delogo=x=10:y=10:w=100:h=50,delogo=x=10:y=h-60:w=100:h=50'',
                 ''-y'', ''temp/downloads/'' @ jid @ ''.mp4'']
           \<in> set (snd (run_processor w job))"
        by (rule url_only_run(3) [OF d k ok1 ok2])
    qed
    from g1 g2 show "(\<forall>w. \<not> relocated (snd (run_processor w job)) \<and>
         (transform_invoked (snd (run_processor w job)) \<longleftrightarrow>
            mkdir_fails w = None \<and> (\<exists>raw. ytdlp_result w = Inr raw))) \<and>
      (\<forall>w raw. mkdir_fails w = None \<and> ytdlp_result w = Inr raw \<longrightarrow>
         FFmpeg [''-i'', raw, ''-c:v'', ''libx264'', ''-preset'', ''medium'', ''-crf'', ''23'',
                 ''-c:a'', ''aac'', ''-b:a'', ''128k'',
                 ''-vf'', ''delogo=x=10:y=10:w=100:h=50,delogo=x=10:y=h-60:w=100:h=50'',
                 ''-y'', ''temp/downloads/'' @ jid @ ''.mp4'']
           \<in> set (snd (run_processor w job)))"
      by (rule conjI)
  qed
  from f0 f1 f1' f2 f3
  have "data job =
          \<lparr>jobId = jid, d_url = b_url b, d_platform = detectPlatform (b_url b),
           d_quality = (case b_quality b of None \<Rightarrow> ''best'' | Some q \<Rightarrow> q),
           d_removeWatermark = (case b_removeWatermark b of None \<Rightarrow> True | Some x \<Rightarrow> x),
           d_format = (case b_format b of None \<Rightarrow> ''mp4'' | Some f \<Rightarrow> f)\<rparr> \<and>
        (isProcessing st \<longrightarrow>
           waiting ?st' = waiting st @ [job] \<and> attempt job = 0 \<and>
           (\<forall>s rest t. waiting s = job # rest \<longrightarrow>
              running (drain s processVideo t) = Some (processVideo, begin_attempt job))) \<and>
        (\<forall>w. run_processor w (begin_attempt job) = run_processor w job) \<and>
        (\<not> isProcessing st \<and> waiting st = [] \<longrightarrow>
           running ?st' = Some (processVideo, job) \<and> attempt job = 1 \<and>
           map_option status (jobs ?st' jid) = Some Processing) \<and>
        (b_quality b = None \<and> b_removeWatermark b = None \<and> b_format b = None \<longrightarrow>
           (\<forall>w. \<not> relocated (snd (run_processor w job)) \<and>
              (transform_invoked (snd (run_processor w job)) \<longleftrightarrow>
                 mkdir_fails w = None \<and> (\<exists>raw. ytdlp_result w = Inr raw))) \<and>
           (\<forall>w raw. mkdir_fails w = None \<and> ytdlp_result w = Inr raw \<longrightarrow>
              FFmpeg [''-i'', raw, ''-c:v'', ''libx264'', ''-preset'', ''medium'', ''-crf'', ''23'',
                      ''-c:a'', ''aac'', ''-b:a'', ''128k'',
                      ''-vf'', ''delogo=x=10:y=10:w=100:h=50,delogo=x=10:y=h-60:w=100:h=50'',
                      ''-y'', ''temp/downloads/'' @ jid @ ''.mp4'']
                \<in> set (snd (run_processor w job))))"
    by (intro conjI)
  then show "\<exists>job.
        data job =
          \<lparr>jobId = jid, d_url = b_url b, d_platform = detectPlatform (b_url b),
           d_quality = (case b_quality b of None \<Rightarrow> ''best'' | Some q \<Rightarrow> q),
           d_removeWatermark = (case b_removeWatermark b of None \<Rightarrow> True | Some x \<Rightarrow> x),
           d_format = (case b_format b of None \<Rightarrow> ''mp4'' | Some f \<Rightarrow> f)\<rparr> \<and>
        (isProcessing st \<longrightarrow>
           waiting ?st' = waiting st @ [job] \<and> attempt job = 0 \<and>
           (\<forall>s rest t. waiting s = job # rest \<longrightarrow>
              running (drain s processVideo t) = Some (processVideo, begin_attempt job))) \<and>
        (\<forall>w. run_processor w (begin_attempt job) = run_processor w job) \<and>
        (\<not> isProcessing st \<and> waiting st = [] \<longrightarrow>
           running ?st' = Some (processVideo, job) \<and> attempt job = 1 \<and>
           map_option status (jobs ?st' jid) = Some Processing) \<and>
        (b_quality b = None \<and> b_removeWatermark b = None \<and> b_format b = None \<longrightarrow>
           (\<forall>w. \<not> relocated (snd (run_processor w job)) \<and>
              (transform_invoked (snd (run_processor w job)) \<longleftrightarrow>
                 mkdir_fails w = None \<and> (\<exists>raw. ytdlp_result w = Inr raw))) \<and>
           (\<forall>w raw. mkdir_fails w = None \<and> ytdlp_result w = Inr raw \<longrightarrow>
              FFmpeg [''-i'', raw, ''-c:v'', ''libx264'', ''-preset'', ''medium'', ''-crf'', ''23'',
                      ''-c:a'', ''aac'', ''-b:a'', ''128k'',
                      ''-vf'', ''delogo=x=10:y=10:w=100:h=50,delogo=x=10:y=h-60:w=100:h=50'',
                      ''-y'', ''temp/downloads/'' @ jid @ ''.mp4'']
                \<in> set (snd (run_processor w job))))"
    by (rule exI [of _ job])
qed

theorem submission_defaults_witness:
  "body_valid scn_validators scn_body \<and>
   b_quality scn_body = None \<and> b_removeWatermark scn_body = None \<and> b_format scn_body = None \<and>
   \<not> isProcessing init_sys \<and> waiting init_sys = [] \<and>
   mkdir_fails scn_world = None \<and> ytdlp_result scn_world = Inr ''temp/processing/job1/video.mp4'' \<and>
   (\<exists>r. jobs scn_submitted ''job1'' = Some r \<and>
      quality r = ''best'' \<and> removeWatermark r \<and> format r = ''mp4'') \<and>
   (\<exists>job. running scn_submitted = Some (processVideo, job) \<and> attempt job = 1 \<and>
      map_option status (jobs scn_submitted ''job1'') = Some Processing \<and>
      d_quality (data job) = ''best'' \<and> d_removeWatermark (data job) \<and>
      d_format (data job) = ''mp4'' \<and>
      \<not> relocated (snd (run_processor scn_world job)) \<and>
      transform_invoked (snd (run_processor scn_world job)) \<and>
      FFmpeg [''-i'', ''temp/processing/job1/video.mp4'', ''-c:v'', ''libx264'',
              ''-preset'', ''medium'', ''-crf'', ''23'', ''-c:a'', ''aac'', ''-b:a'', ''128k'',
              ''-vf'', ''delogo=x=10:y=10:w=100:h=50,delogo=x=10:y=h-60:w=100:h=50'',
              ''-y'', ''temp/downloads/job1.mp4'']
        \<in> set (snd (run_processor scn_world job)))"
proof -
  have o: "b_quality scn_body = None" "b_removeWatermark scn_body = None"
    "b_format scn_body = None"
    by (simp_all add: scn_body_def)
  have ok: "mkdir_fails scn_world = None"
    "ytdlp_result scn_world = Inr ''temp/processing/job1/video.mp4''"
    by (simp_all add: scn_world_def)
  have idle: "\<not> isProcessing init_sys \<and> waiting init_sys = []"
    by (simp add: init_idle)
  have all: "b_quality scn_body = None \<and> b_removeWatermark scn_body = None \<and>
      b_format scn_body = None"
    using o by (intro conjI)
  note T = submission_defaults [OF scn_body_valid, of init_sys "''job1''" "''203.0.113.7''" 1000,
      folded scn_submitted_def]
  from T obtain r job where
    r: "jobs scn_submitted ''job1'' = Some r"
      "b_quality scn_body = None \<longrightarrow> quality r = ''best''"
      "b_removeWatermark scn_body = None \<longrightarrow> removeWatermark r"
      "b_format scn_body = None \<longrightarrow> format r = ''mp4''"
    and dat: "data job =
          \<lparr>jobId = ''job1'', d_url = b_url scn_body, d_platform = detectPlatform (b_url scn_body),
           d_quality = (case b_quality scn_body of None \<Rightarrow> ''best'' | Some q \<Rightarrow> q),
           d_removeWatermark = (case b_removeWatermark scn_body of None \<Rightarrow> True | Some x \<Rightarrow> x),
           d_format = (case b_format scn_body of None \<Rightarrow> ''mp4'' | Some f \<Rightarrow> f)\<rparr>"
    and same: "\<forall>w. run_processor w (begin_attempt job) = run_processor w job"
    and started: "\<not> isProcessing init_sys \<and> waiting init_sys = [] \<longrightarrow>
        running scn_submitted = Some (processVideo, job) \<and> attempt job = 1 \<and>
        map_option status (jobs scn_submitted ''job1'') = Some Processing"
    and p: "b_quality scn_body = None \<and> b_removeWatermark scn_body = None \<and>
        b_format scn_body = None \<longrightarrow>
        (\<forall>w. \<not> relocated (snd (run_processor w job)) \<and>
           (transform_invoked (snd (run_processor w job)) \<longleftrightarrow>
              mkdir_fails w = None \<and> (\<exists>raw. ytdlp_result w = Inr raw))) \<and>
        (\<forall>w raw. mkdir_fails w = None \<and> ytdlp_result w = Inr raw \<longrightarrow>
           FFmpeg [''-i'', raw, ''-c:v'', ''libx264'', ''-preset'', ''medium'', ''-crf'', ''23'',
                   ''-c:a'', ''aac'', ''-b:a'', ''128k'',
                   ''-vf'', ''delogo=x=10:y=10:w=100:h=50,delogo=x=10:y=h-60:w=100:h=50'',
                   ''-y'', ''temp/downloads/'' @ ''job1'' @ ''.mp4'']
             \<in> set (snd (run_processor w job)))"
    by (elim conjE exE)
  from r(2) o(1) have r2: "quality r = ''best''" by (rule mp)
  from r(3) o(2) have r3: "removeWatermark r" by (rule mp)
  from r(4) o(3) have r4: "format r = ''mp4''" by (rule mp)
  from dat o have j4: "d_quality (data job) = ''best''" and j5: "d_removeWatermark (data job)"
    and j6: "d_format (data job) = ''mp4''"
    by simp_all
  from started idle have s: "running scn_submitted = Some (processVideo, job) \<and> attempt job = 1 \<and>
        map_option status (jobs scn_submitted ''job1'') = Some Processing"
    by (rule mp)
  from s have s1: "running scn_submitted = Some (processVideo, job)" by (rule conjunct1)
  from s have s2: "attempt job = 1" by (elim conjE)
  from s have s3: "map_option status (jobs scn_submitted ''job1'') = Some Processing"
    by (elim conjE)
  from p all have p': "(\<forall>w. \<not> relocated (snd (run_processor w job)) \<and>
           (transform_invoked (snd (run_processor w job)) \<longleftrightarrow>
              mkdir_fails w = None \<and> (\<exists>raw. ytdlp_result w = Inr raw))) \<and>
        (\<forall>w raw. mkdir_fails w = None \<and> ytdlp_result w = Inr raw \<longrightarrow>
           FFmpeg [''-i'', raw, ''-c:v'', ''libx264'', ''-preset'', ''medium'', ''-crf'', ''23'',
                   ''-c:a'', ''aac'', ''-b:a'', ''128k'',
                   ''-vf'', ''delogo=x=10:y=10:w=100:h=50,delogo=x=10:y=h-60:w=100:h=50'',
                   ''-y'', ''temp/downloads/'' @ ''job1'' @ ''.mp4'']
             \<in> set (snd (run_processor w job)))"
    by (rule mp)
  note q = p' [THEN conjunct1, THEN spec, of scn_world]
  from q have n: "\<not> relocated (snd (run_processor scn_world job))" by (rule conjunct1)
  from q have ti: "transform_invoked (snd (run_processor scn_world job)) \<longleftrightarrow>
      mkdir_fails scn_world = None \<and> (\<exists>raw. ytdlp_result scn_world = Inr raw)"
    by (rule conjunct2)
  from ti ok have t: "transform_invoked (snd (run_processor scn_world job))" by simp
  from ok have ok': "mkdir_fails scn_world = None \<and>
      ytdlp_result scn_world = Inr ''temp/processing/job1/video.mp4''"
    by (intro conjI)
  from p' [THEN conjunct2, THEN spec, THEN spec, THEN mp, OF ok']
  have a: "FFmpeg [''-i'', ''temp/processing/job1/video.mp4'', ''-c:v'', ''libx264'',
              ''-preset'', ''medium'', ''-crf'', ''23'', ''-c:a'', ''aac'', ''-b:a'', ''128k'',
              ''-vf'', ''delogo=x=10:y=10:w=100:h=50,delogo=x=10:y=h-60:w=100:h=50'',
              ''-y'', ''temp/downloads/job1.mp4'']
        \<in> set (snd (run_processor scn_world job))"
    by simp
  have e1: "\<exists>r. jobs scn_submitted ''job1'' = Some r \<and>
      quality r = ''best'' \<and> removeWatermark r \<and> format r = ''mp4''"
    using r(1) r2 r3 r4 by (intro exI [of _ r] conjI)
  have e2: "\<exists>job. running scn_submitted = Some (processVideo, job) \<and> attempt job = 1 \<and>
      map_option status (jobs scn_submitted ''job1'') = Some Processing \<and>
      d_quality (data job) = ''best'' \<and> d_removeWatermark (data job) \<and>
      d_format (data job) = ''mp4'' \<and>
      \<not> relocated (snd (run_processor scn_world job)) \<and>
      transform_invoked (snd (run_processor scn_world job)) \<and>
      FFmpeg [''-i'', ''temp/processing/job1/video.mp4'', ''-c:v'', ''libx264'',
              ''-preset'', ''medium'', ''-crf'', ''23'', ''-c:a'', ''aac'', ''-b:a'', ''128k'',
              ''-vf'', ''delogo=x=10:y=10:w=100:h=50,delogo=x=10:y=h-60:w=100:h=50'',
              ''-y'', ''temp/downloads/job1.mp4'']
        \<in> set (snd (run_processor scn_world job))"
    using s1 s2 s3 j4 j5 j6 n t a by (intro exI [of _ job] conjI)
  from idle have i1: "\<not> isProcessing init_sys" and i2: "waiting init_sys = []" by simp_all
  from scn_body_valid o i1 i2 ok e1 e2 show ?thesis by (intro conjI)
qed

text \<open>
  The claim as stated fails: the Work Item of a submission that gives only a URL is
  started, its fetch stage fails, and the run ends with the error of the fetch stage
  without invoking the transcode process.
\<close>

theorem url_only_fetch_failure_counterexample:
  "body_valid scn_validators scn_body \<and>
   b_quality scn_body = None \<and> b_removeWatermark scn_body = None \<and> b_format scn_body = None \<and>
   running scn_submitted =
     Some (processVideo, begin_attempt (new_job (job_payload scn_body ''job1'') route_options 1000)) \<and>
   fst (run_processor scn_fetch_fails
     (begin_attempt (new_job (job_payload scn_body ''job1'') route_options 1000))) =
     Inl ''yt-dlp exited with code 1'' \<and>
   \<not> transform_invoked (snd (run_processor scn_fetch_fails
     (begin_attempt (new_job (job_payload scn_body ''job1'') route_options 1000))))"
proof -
  let ?job = "begin_attempt (new_job (job_payload scn_body ''job1'') route_options 1000)"
  have o: "b_quality scn_body = None" "b_removeWatermark scn_body = None"
    "b_format scn_body = None"
    by (simp_all add: scn_body_def)
  have d: "d_removeWatermark (data ?job) = True" "d_format (data ?job) = ''mp4''"
    and k: "jobId (data ?job) = ''job1''"
    by (simp_all add: job_payload_eq o)
  have f: "fst (run_processor scn_fetch_fails ?job) = Inl ''yt-dlp exited with code 1''"
    by (simp add: run_processor_def fst_downloadAndProcessVideo try_block_result
        scn_fetch_fails_def)
  have t: "\<not> transform_invoked (snd (run_processor scn_fetch_fails ?job))"
    unfolding url_only_run(2) [OF d k] by (simp add: scn_fetch_fails_def)
  from scn_body_valid o scn_submitted_fields(2) f t show ?thesis by (intro conjI)
qed

section \<open>Properties of the Retention Sweeper\<close>

subsection \<open>cleanupDirectory without errors\<close>

lemma map_of_unique:
  "distinct (map fst es) \<Longrightarrow> map_of es n = Some x \<Longrightarrow> e \<in> set es \<Longrightarrow> fst e = n \<Longrightarrow> snd e = x"
  by (induction es) (auto split: if_splits simp: rev_image_eqI)

lemma map_of_absent: "map_of es n = None \<Longrightarrow> e \<in> set es \<Longrightarrow> fst e \<noteq> n"
  by (auto simp: map_of_eq_None_iff)

lemma cleanup_file_entries:
  assumes ok: "io_ok io" and d: "distinct (map fst (sw_entries s))"
  shows "sw_entries (cleanup_file io dir maxAge now file s) =
      filter (\<lambda>e. \<not> (fst e = file \<and> now - mtime (snd e) > maxAge)) (sw_entries s)"
proof (cases "map_of (sw_entries s) file")
  case None
  then have "\<And>e. e \<in> set (sw_entries s) \<Longrightarrow> fst e \<noteq> file" by (rule map_of_absent)
  then have "filter (\<lambda>e. \<not> (fst e = file \<and> now - mtime (snd e) > maxAge)) (sw_entries s) =
      sw_entries s"
    by (simp add: filter_id_conv)
  with None ok show ?thesis by (simp add: io_ok_def Let_def)
next
  case (Some x)
  have u: "\<And>e. e \<in> set (sw_entries s) \<Longrightarrow> fst e = file \<Longrightarrow> snd e = x"
    using map_of_unique [OF d Some] by blast
  show ?thesis
  proof (cases "now - mtime x > maxAge")
    case True
    have "filter (\<lambda>e. \<not> (fst e = file \<and> now - mtime (snd e) > maxAge)) (sw_entries s) =
        filter (\<lambda>e. fst e \<noteq> file) (sw_entries s)"
      by (rule filter_cong [OF refl]) (use u True in auto)
    with Some True ok show ?thesis by (simp add: io_ok_def remove_entry_def Let_def)
  next
    case False
    have "filter (\<lambda>e. \<not> (fst e = file \<and> now - mtime (snd e) > maxAge)) (sw_entries s) =
        sw_entries s"
      unfolding filter_id_conv using u False by auto
    with Some False ok show ?thesis by (simp add: io_ok_def Let_def)
  qed
qed

lemma cleanup_files_entries:
  assumes ok: "io_ok io"
  shows "distinct (map fst (sw_entries s)) \<Longrightarrow>
      sw_entries (cleanup_files io dir maxAge now fs s) =
      filter (\<lambda>e. \<not> (fst e \<in> set fs \<and> now - mtime (snd e) > maxAge)) (sw_entries s)"
proof (induction fs arbitrary: s)
  case Nil
  then show ?case by simp
next
  case (Cons f fs)
  let ?s1 = "cleanup_file io dir maxAge now f s"
  have e1: "sw_entries ?s1 =
      filter (\<lambda>e. \<not> (fst e = f \<and> now - mtime (snd e) > maxAge)) (sw_entries s)"
    by (rule cleanup_file_entries [OF ok Cons.prems])
  then have d1: "distinct (map fst (sw_entries ?s1))"
    using Cons.prems by (simp add: distinct_map_filter)
  have "sw_entries (cleanup_files io dir maxAge now (f # fs) s) =
      sw_entries (cleanup_files io dir maxAge now fs ?s1)"
    by simp
  also have "\<dots> = filter (\<lambda>e. \<not> (fst e \<in> set fs \<and> now - mtime (snd e) > maxAge))
      (sw_entries ?s1)"
    by (rule Cons.IH [OF d1])
  also have "\<dots> = filter (\<lambda>e. \<not> (fst e \<in> set (f # fs) \<and> now - mtime (snd e) > maxAge))
      (sw_entries s)"
    unfolding e1 filter_filter by (rule filter_cong [OF refl]) auto
  finally show ?case .
qed

lemma cleanupDirectory_Dir:
  assumes ok: "io_ok io" and d: "distinct (map fst es)"
  shows "fst (cleanupDirectory io dirPath maxAge now (Some (Dir m es)) bytes) =
      Some (Dir m (swept maxAge now es))"
proof -
  let ?s = "\<lparr>sw_entries = es, sw_deleted = 0, sw_bytes = bytes, sw_warnings = []\<rparr>"
  have "sw_entries (cleanup_files io dirPath maxAge now (map fst es) ?s) =
      filter (\<lambda>e. \<not> (fst e \<in> set (map fst es) \<and> now - mtime (snd e) > maxAge)) es"
    using cleanup_files_entries [OF ok, of ?s dirPath maxAge now "map fst es"] d by simp
  also have "\<dots> = swept maxAge now es"
    unfolding swept_def by (rule filter_cong [OF refl]) auto
  finally show ?thesis
    using ok by (simp add: cleanupDirectory_def io_ok_def Let_def)
qed

text \<open>A missing directory is no error: nothing changes, nothing is counted or logged.\<close>

lemma cleanupDirectory_missing:
  "cleanupDirectory io dirPath maxAge now None bytes = (None, 0, bytes, [])"
  by (simp add: cleanupDirectory_def)

lemma swept_distinct: "distinct (map fst es) \<Longrightarrow> distinct (map fst (swept maxAge now es))"
  by (simp add: swept_def distinct_map_filter)

lemma map_of_swept:
  "distinct (map fst es) \<Longrightarrow> map_of es n = Some x \<Longrightarrow>
   map_of (swept maxAge now es) n = (if now - mtime x > maxAge then None else Some x)"
proof (induction es)
  case Nil
  then show ?case by simp
next
  case (Cons e es)
  show ?case
  proof (cases "fst e = n")
    case True
    with Cons.prems have x: "snd e = x" by auto
    from True Cons.prems have "map_of es n = None"
      by (auto simp: map_of_eq_None_iff)
    then have "map_of (swept maxAge now es) n = None"
      by (auto simp: map_of_eq_None_iff swept_def)
    with True x show ?thesis by (cases e) (auto simp: swept_def)
  next
    case False
    with Cons.prems have "map_of es n = Some x" by (cases e) auto
    with Cons have "map_of (swept maxAge now es) n =
        (if now - mtime x > maxAge then None else Some x)"
      by simp
    with False show ?thesis by (cases e) (auto simp: swept_def)
  qed
qed

subsection \<open>One child of the temp directory\<close>

lemma replace_entry_names: "map fst (replace_entry n nd es) = map fst es"
  by (induction es) (auto simp: replace_entry_def)

lemma map_of_replace_entry:
  "map_of (replace_entry n nd es) k =
     (if k = n then map_option (\<lambda>x. nd) (map_of es k) else map_of es k)"
  by (induction es) (auto simp: replace_entry_def)

lemma sweep_child_shape:
  "\<exists>es'. fst (sweep_child io n maxAge now (Some (Dir m es)) bytes) = Some (Dir m es') \<and>
     map fst es' = map fst es \<and>
     (\<forall>k. k \<noteq> n \<longrightarrow> map_of es' k = map_of es k) \<and>
     map_of es' n = fst (cleanupDirectory io [n] maxAge now (map_of es n) bytes)"
proof -
  obtain c r where cd: "cleanupDirectory io [n] maxAge now (map_of es n) bytes = (c, r)"
    by (cases "cleanupDirectory io [n] maxAge now (map_of es n) bytes") auto
  show ?thesis
  proof (cases c)
    case None
    with cd have none: "map_of es n = None"
      by (auto simp: cleanupDirectory_def Let_def split: option.splits node.splits if_splits)
    from None cd have "fst (sweep_child io n maxAge now (Some (Dir m es)) bytes) = Some (Dir m es)"
      by (simp add: sweep_child_def)
    with None none cd show ?thesis by simp
  next
    case (Some nd)
    with cd obtain x where x: "map_of es n = Some x"
      by (cases "map_of es n") (auto simp: cleanupDirectory_def)
    from Some cd have "fst (sweep_child io n maxAge now (Some (Dir m es)) bytes) =
        Some (Dir m (replace_entry n nd es))"
      by (simp add: sweep_child_def)
    with Some x cd show ?thesis
      by (simp add: replace_entry_names map_of_replace_entry)
  qed
qed

subsection \<open>cleanupEmptyDirectories\<close>

lemma cleanupEmptyEntries_names:
  "fst ` set (cleanupEmptyEntries io p es) \<subseteq> fst ` set es"
proof (induction es)
  case Nil
  then show ?case by simp
next
  case (Cons e es)
  obtain n x where e: "e = (n, x)" by (cases e)
  show ?case
  proof (cases x)
    case (File m s)
    with e Cons show ?thesis by auto
  next
    case (Dir m sub)
    with e Cons show ?thesis by (auto simp: Let_def)
  qed
qed

lemma prune_absent:
  "map_of es n = None \<Longrightarrow> map_of (cleanupEmptyEntries io p es) n = None"
  using cleanupEmptyEntries_names [of io p es] by (auto simp: map_of_eq_None_iff)

lemma prune_file:
  "distinct (map fst es) \<Longrightarrow> map_of es n = Some (File m s) \<Longrightarrow>
   map_of (cleanupEmptyEntries io p es) n = Some (File m s)"
proof (induction es)
  case Nil
  then show ?case by simp
next
  case (Cons e es)
  obtain n' x where e: "e = (n', x)" by (cases e)
  show ?case
  proof (cases x)
    case (File m' s')
    with e Cons show ?thesis by auto
  next
    case (Dir m' sub)
    with e Cons.prems have ne: "n' \<noteq> n" by auto
    with e Cons.prems have "map_of es n = Some (File m s)" by simp
    with Cons have "map_of (cleanupEmptyEntries io p es) n = Some (File m s)" by simp
    with e Dir ne show ?thesis by (simp add: Let_def)
  qed
qed

lemma prune_dir:
  assumes ok: "io_ok io"
  shows "distinct (map fst es) \<Longrightarrow> map_of es n = Some (Dir m sub) \<Longrightarrow>
   map_of (cleanupEmptyEntries io p es) n =
     (if cleanupEmptyEntries io (p @ [n]) sub = [] then None
      else Some (Dir m (cleanupEmptyEntries io (p @ [n]) sub)))"
proof (induction es)
  case Nil
  then show ?case by simp
next
  case (Cons e es)
  obtain n' x where e: "e = (n', x)" by (cases e)
  show ?case
  proof (cases "n' = n")
    case True
    with e Cons.prems have x: "x = Dir m sub" by simp
    from True e Cons.prems have "map_of es n = None"
      by (auto simp: map_of_eq_None_iff)
    then have rest: "map_of (cleanupEmptyEntries io p es) n = None" by (rule prune_absent)
    from ok have io: "\<not> io Readdir (p @ [n])" "\<not> io Rmdir (p @ [n])"
      by (simp_all add: io_ok_def)
    from e x True rest io show ?thesis by (simp add: Let_def)
  next
    case False
    with e Cons.prems have "map_of es n = Some (Dir m sub)" by simp
    with Cons have IH: "map_of (cleanupEmptyEntries io p es) n =
        (if cleanupEmptyEntries io (p @ [n]) sub = [] then None
         else Some (Dir m (cleanupEmptyEntries io (p @ [n]) sub)))"
      by simp
    show ?thesis
    proof (cases x)
      case (File m' s')
      with e False IH show ?thesis by simp
    next
      case (Dir m' sub')
      with e False IH show ?thesis by (simp add: Let_def)
    qed
  qed
qed

lemma lookup_Nil: "lookup x [] = x"
  by (cases x) simp_all

lemma lookup_after_prune:
  assumes ok: "io_ok io" and d: "distinct (map fst es)"
    and wd: "map_of es wd = Some (Dir md des)"
  shows "lookup (Some (cleanupEmptyDirectories io [] (Dir m es))) [wd, n] =
      map_of (cleanupEmptyEntries io [wd] des) n"
proof -
  from ok have "\<not> io Readdir []" by (simp add: io_ok_def)
  then have "cleanupEmptyDirectories io [] (Dir m es) = Dir m (cleanupEmptyEntries io [] es)"
    by simp
  then have "lookup (Some (cleanupEmptyDirectories io [] (Dir m es))) [wd, n] =
      lookup (map_of (cleanupEmptyEntries io [] es) wd) [n]"
    by simp
  also have "map_of (cleanupEmptyEntries io [] es) wd =
      (if cleanupEmptyEntries io [wd] des = [] then None
       else Some (Dir md (cleanupEmptyEntries io [wd] des)))"
    using prune_dir [OF ok d wd, of "[]"] by simp
  also have "lookup (if cleanupEmptyEntries io [wd] des = [] then None
       else Some (Dir md (cleanupEmptyEntries io [wd] des))) [n] =
      map_of (cleanupEmptyEntries io [wd] des) n"
    by (simp add: lookup_Nil)
  finally show ?thesis .
qed

subsection \<open>One sweep pass\<close>

lemma watched_distinct: "downloads \<noteq> processing"
  by (simp add: downloads_def processing_def)

lemma cleanup_fst:
  "fst (cleanup io nowD nowP temp) =
     map_option (cleanupEmptyDirectories io [])
       (fst (sweep_child io processing PROCESSING_MAX_AGE nowP
          (fst (sweep_child io downloads DOWNLOADS_MAX_AGE nowD temp 0))
          (fst (snd (snd (sweep_child io downloads DOWNLOADS_MAX_AGE nowD temp 0))))))"
  by (simp add: cleanup_def Let_def split: prod.splits)

lemma cleanup_shape:
  assumes ok: "io_ok io" and d: "distinct (map fst es)"
  shows "\<exists>es2. fst (cleanup io nowD nowP (Some (Dir m es))) =
        Some (cleanupEmptyDirectories io [] (Dir m es2)) \<and>
      distinct (map fst es2) \<and>
      (\<forall>md des. map_of es downloads = Some (Dir md des) \<longrightarrow> distinct (map fst des) \<longrightarrow>
         map_of es2 downloads = Some (Dir md (swept DOWNLOADS_MAX_AGE nowD des))) \<and>
      (\<forall>md des. map_of es processing = Some (Dir md des) \<longrightarrow> distinct (map fst des) \<longrightarrow>
         map_of es2 processing = Some (Dir md (swept PROCESSING_MAX_AGE nowP des)))"
proof -
  let ?b = "fst (snd (snd (sweep_child io downloads DOWNLOADS_MAX_AGE nowD (Some (Dir m es)) 0)))"
  from sweep_child_shape [of io downloads DOWNLOADS_MAX_AGE nowD m es 0]
  obtain es1 where s1: "fst (sweep_child io downloads DOWNLOADS_MAX_AGE nowD (Some (Dir m es)) 0) =
      Some (Dir m es1)"
    and n1: "map fst es1 = map fst es"
    and o1: "\<forall>k. k \<noteq> downloads \<longrightarrow> map_of es1 k = map_of es k"
    and c1: "map_of es1 downloads =
      fst (cleanupDirectory io [downloads] DOWNLOADS_MAX_AGE nowD (map_of es downloads) 0)"
    by (elim exE conjE)
  from sweep_child_shape [of io processing PROCESSING_MAX_AGE nowP m es1 ?b]
  obtain es2 where s2: "fst (sweep_child io processing PROCESSING_MAX_AGE nowP (Some (Dir m es1)) ?b) =
      Some (Dir m es2)"
    and n2: "map fst es2 = map fst es1"
    and o2: "\<forall>k. k \<noteq> processing \<longrightarrow> map_of es2 k = map_of es1 k"
    and c2: "map_of es2 processing =
      fst (cleanupDirectory io [processing] PROCESSING_MAX_AGE nowP (map_of es1 processing) ?b)"
    by (elim exE conjE)
  have r: "fst (cleanup io nowD nowP (Some (Dir m es))) =
      Some (cleanupEmptyDirectories io [] (Dir m es2))"
    by (simp add: cleanup_fst s1 s2)
  have dd: "distinct (map fst es2)" using d n1 n2 by simp
  have dl: "\<forall>md des. map_of es downloads = Some (Dir md des) \<longrightarrow> distinct (map fst des) \<longrightarrow>
      map_of es2 downloads = Some (Dir md (swept DOWNLOADS_MAX_AGE nowD des))"
  proof (intro allI impI)
    fix md des
    assume a: "map_of es downloads = Some (Dir md des)" and b: "distinct (map fst des)"
    from o2 watched_distinct have "map_of es2 downloads = map_of es1 downloads" by simp
    with c1 a show "map_of es2 downloads = Some (Dir md (swept DOWNLOADS_MAX_AGE nowD des))"
      by (simp add: cleanupDirectory_Dir [OF ok b])
  qed
  have pr: "\<forall>md des. map_of es processing = Some (Dir md des) \<longrightarrow> distinct (map fst des) \<longrightarrow>
      map_of es2 processing = Some (Dir md (swept PROCESSING_MAX_AGE nowP des))"
  proof (intro allI impI)
    fix md des
    assume a: "map_of es processing = Some (Dir md des)" and b: "distinct (map fst des)"
    from o1 watched_distinct have "map_of es1 processing = map_of es processing" by simp
    with c2 a show "map_of es2 processing = Some (Dir md (swept PROCESSING_MAX_AGE nowP des))"
      by (simp add: cleanupDirectory_Dir [OF ok b])
  qed
  from r dd dl pr show ?thesis by blast
qed

lemma entry_fate:
  assumes ok: "io_ok io" and d: "distinct (map fst es)"
    and which: "(wd = downloads \<and> maxAge = DOWNLOADS_MAX_AGE \<and> now = nowD) \<or>
                (wd = processing \<and> maxAge = PROCESSING_MAX_AGE \<and> now = nowP)"
    and wd: "map_of es wd = Some (Dir md des)" and dd: "distinct (map fst des)"
  shows "lookup (fst (cleanup io nowD nowP (Some (Dir m es)))) [wd, n] =
      map_of (cleanupEmptyEntries io [wd] (swept maxAge now des)) n"
proof -
  from cleanup_shape [OF ok d, of nowD nowP m]
  obtain es2 where r: "fst (cleanup io nowD nowP (Some (Dir m es))) =
        Some (cleanupEmptyDirectories io [] (Dir m es2))"
    and d2: "distinct (map fst es2)"
    and dl: "\<forall>md des. map_of es downloads = Some (Dir md des) \<longrightarrow> distinct (map fst des) \<longrightarrow>
         map_of es2 downloads = Some (Dir md (swept DOWNLOADS_MAX_AGE nowD des))"
    and pr: "\<forall>md des. map_of es processing = Some (Dir md des) \<longrightarrow> distinct (map fst des) \<longrightarrow>
         map_of es2 processing = Some (Dir md (swept PROCESSING_MAX_AGE nowP des))"
    by (elim exE conjE)
  from which wd dd dl pr have "map_of es2 wd = Some (Dir md (swept maxAge now des))"
    by auto
  from lookup_after_prune [OF ok d2 this] r show ?thesis by simp
qed

lemma entry_fates:
  assumes ok: "io_ok io" and d: "distinct (map fst es)"
    and which: "(wd = downloads \<and> maxAge = DOWNLOADS_MAX_AGE \<and> now = nowD) \<or>
                (wd = processing \<and> maxAge = PROCESSING_MAX_AGE \<and> now = nowP)"
    and wd: "map_of es wd = Some (Dir md des)" and dd: "distinct (map fst des)"
    and x: "map_of des n = Some x"
  shows "now - mtime x > maxAge \<Longrightarrow>
      lookup (fst (cleanup io nowD nowP (Some (Dir m es)))) [wd, n] = None"
    and "\<not> is_Dir x \<Longrightarrow> \<not> now - mtime x > maxAge \<Longrightarrow>
      lookup (fst (cleanup io nowD nowP (Some (Dir m es)))) [wd, n] = Some x"
    and "x = Dir t [] \<Longrightarrow>
      lookup (fst (cleanup io nowD nowP (Some (Dir m es)))) [wd, n] = None"
proof -
  note f = entry_fate [OF ok d which wd dd, of m n]
  note sw = map_of_swept [OF dd x, of maxAge now]
  note ds = swept_distinct [OF dd, of maxAge now]
  show old: "now - mtime x > maxAge \<Longrightarrow>
      lookup (fst (cleanup io nowD nowP (Some (Dir m es)))) [wd, n] = None"
    using f sw by (simp add: prune_absent)
  show "\<not> is_Dir x \<Longrightarrow> \<not> now - mtime x > maxAge \<Longrightarrow>
      lookup (fst (cleanup io nowD nowP (Some (Dir m es)))) [wd, n] = Some x"
  proof -
    assume nd: "\<not> is_Dir x" and young: "\<not> now - mtime x > maxAge"
    from nd obtain mt s where xf: "x = File mt s" by (cases x) auto
    from sw young xf have "map_of (swept maxAge now des) n = Some (File mt s)" by simp
    from prune_file [OF ds this] f xf show ?thesis by simp
  qed
  show "x = Dir t [] \<Longrightarrow>
      lookup (fst (cleanup io nowD nowP (Some (Dir m es)))) [wd, n] = None"
  proof (cases "now - mtime x > maxAge")
    case True
    then show ?thesis by (rule old)
  next
    case False
    assume xe: "x = Dir t []"
    with sw False have "map_of (swept maxAge now des) n = Some (Dir t [])" by simp
    from prune_dir [OF ok ds this, of "[wd]"] f show ?thesis by simp
  qed
qed

lemma prune_empty_iff:
  "io_ok io \<Longrightarrow> is_Dir x \<longrightarrow>
     (entries (cleanupEmptyDirectories io p x) = []) = (\<not> has_file x)"
  "io_ok io \<Longrightarrow> (cleanupEmptyEntries io p es = []) = (\<not> any_file es)"
proof (induction io p x and io p es rule: cleanupEmptyDirectories_cleanupEmptyEntries.induct)
  case (1 io dirPath m s)
  show ?case by simp
next
  case (2 io dirPath m es)
  from "2.prems" have "\<not> io Readdir dirPath" by (simp add: io_ok_def)
  with 2 show ?case by simp
next
  case (3 io dirPath)
  show ?case by simp
next
  case (4 io dirPath n m s rest)
  show ?case by simp
next
  case (5 io dirPath n m es rest)
  note ok = "5.prems"
  from ok have io: "\<not> io Readdir (dirPath @ [n])" "\<not> io Rmdir (dirPath @ [n])"
    by (simp_all add: io_ok_def)
  from 5(1) [OF refl ok] have sub:
    "(entries (cleanupEmptyDirectories io (dirPath @ [n]) (Dir m es)) = []) = (\<not> has_file (Dir m es))"
    by simp
  show ?case
  proof (cases "has_file (Dir m es)")
    case True
    with sub io show ?thesis by (simp add: Let_def)
  next
    case False
    with sub io have e: "entries (cleanupEmptyDirectories io (dirPath @ [n]) (Dir m es)) = []"
      by simp
    from e io have c: "\<not> io Readdir (dirPath @ [n]) \<and>
        entries (cleanupEmptyDirectories io (dirPath @ [n]) (Dir m es)) = [] \<and>
        \<not> io Rmdir (dirPath @ [n])"
      by simp
    from 5(2) [OF refl refl c ok]
    have "(cleanupEmptyEntries io dirPath rest = []) = (\<not> any_file rest)" .
    with False e io show ?thesis by (simp add: Let_def)
  qed
qed

lemma entry_gone_iff:
  assumes ok: "io_ok io" and d: "distinct (map fst es)"
    and which: "(wd = downloads \<and> maxAge = DOWNLOADS_MAX_AGE \<and> now = nowD) \<or>
                (wd = processing \<and> maxAge = PROCESSING_MAX_AGE \<and> now = nowP)"
    and wd: "map_of es wd = Some (Dir md des)" and dd: "distinct (map fst des)"
    and x: "map_of des n = Some x"
  shows "(lookup (fst (cleanup io nowD nowP (Some (Dir m es)))) [wd, n] = None) =
      (now - mtime x > maxAge \<or> \<not> has_file x)"
proof (cases "now - mtime x > maxAge")
  case True
  with entry_fates(1) [OF ok d which wd dd x] show ?thesis by simp
next
  case False
  note young = this
  note f = entry_fate [OF ok d which wd dd, of m n]
  note sw = map_of_swept [OF dd x, of maxAge now]
  note ds = swept_distinct [OF dd, of maxAge now]
  show ?thesis
  proof (cases x)
    case (File mt s)
    then have "\<not> is_Dir x" by simp
    from entry_fates(2) [OF ok d which wd dd x this young] File young
    show ?thesis by simp
  next
    case (Dir t sub)
    with sw young have "map_of (swept maxAge now des) n = Some (Dir t sub)" by simp
    from prune_dir [OF ok ds this, of "[wd]"] f
    have "(lookup (fst (cleanup io nowD nowP (Some (Dir m es)))) [wd, n] = None) =
        (cleanupEmptyEntries io [wd, n] sub = [])"
      by simp
    with prune_empty_iff(2) [OF ok, of "[wd, n]" sub] Dir young show ?thesis by simp
  qed
qed

lemma no_errors_ok: "io_ok no_errors"
  by (simp add: io_ok_def no_errors_def)

text \<open>
  Claim C9, as the code has it. In a sweep pass without file system errors, an immediate
  entry of a watched directory (downloads with the threshold of 1 hour = 3600000 ms,
  processing with the threshold of 30 minutes = 1800000 ms) is gone after the pass
  exactly when its age strictly exceeds the threshold or it is a directory that holds
  no file at any depth, which the final removal of empty directories takes away at any
  age. So a file is deleted exactly when its age strictly exceeds the threshold, and a
  file that is kept is kept unchanged. A missing watched root directory makes
  \<^verbatim>\<open>cleanupDirectory\<close> return 0 deletions with no warning and no change.
\<close>

theorem sweep_pass_deletions:
  assumes "io_ok io" and "distinct (map fst es)"
    and "(wd = downloads \<and> maxAge = DOWNLOADS_MAX_AGE \<and> now = nowD) \<or>
         (wd = processing \<and> maxAge = PROCESSING_MAX_AGE \<and> now = nowP)"
    and "map_of es wd = Some (Dir md des)" and "distinct (map fst des)"
    and "map_of des n = Some x"
  shows "((lookup (fst (cleanup io nowD nowP (Some (Dir m es)))) [wd, n] = None) =
            (now - mtime x > maxAge \<or> \<not> has_file x)) \<and>
         (\<not> is_Dir x \<longrightarrow>
            (lookup (fst (cleanup io nowD nowP (Some (Dir m es)))) [wd, n] = None) =
            (now - mtime x > maxAge)) \<and>
         (\<not> is_Dir x \<and> \<not> now - mtime x > maxAge \<longrightarrow>
            lookup (fst (cleanup io nowD nowP (Some (Dir m es)))) [wd, n] = Some x) \<and>
         DOWNLOADS_MAX_AGE = 3600000 \<and> PROCESSING_MAX_AGE = 1800000 \<and>
         cleanupDirectory io [wd] maxAge now None bytes = (None, 0, bytes, [])"
proof -
  note g = entry_gone_iff [OF assms, of m]
  have f: "\<not> is_Dir x \<Longrightarrow> has_file x" by (cases x) simp_all
  have c1: "(lookup (fst (cleanup io nowD nowP (Some (Dir m es)))) [wd, n] = None) =
            (now - mtime x > maxAge \<or> \<not> has_file x)"
    by (rule g)
  have c2: "\<not> is_Dir x \<longrightarrow>
            (lookup (fst (cleanup io nowD nowP (Some (Dir m es)))) [wd, n] = None) =
            (now - mtime x > maxAge)"
    using g f by simp
  have c3: "\<not> is_Dir x \<and> \<not> now - mtime x > maxAge \<longrightarrow>
            lookup (fst (cleanup io nowD nowP (Some (Dir m es)))) [wd, n] = Some x"
    using entry_fates(2) [OF assms, of m] by simp
  have c4: "DOWNLOADS_MAX_AGE = 3600000" by (simp add: DOWNLOADS_MAX_AGE_def)
  have c5: "PROCESSING_MAX_AGE = 1800000" by (simp add: PROCESSING_MAX_AGE_def)
  have c6: "cleanupDirectory io [wd] maxAge now None bytes = (None, 0, bytes, [])"
    by (rule cleanupDirectory_missing)
  from c1 c2 c3 c4 c5 c6 show ?thesis by (intro conjI)
qed

theorem sweep_pass_deletions_witness:
  "lookup swept_tree [''processing'', ''old.part''] = None \<and>
   lookup swept_tree [''downloads'', ''a.mp4''] = Some (File 6460000 100) \<and>
   lookup swept_tree [''downloads'', ''b.mp4''] = None"
proof -
  let ?D = "[(''a.mp4'', File 6460000 100), (''b.mp4'', File 6340000 200)]"
  let ?P = "[(''old.part'', File 8140000 10), (''job1'', Dir 9940000 [])]"
  let ?es = "[(''downloads'', Dir 0 ?D), (''processing'', Dir 0 ?P)]"
  have t: "swept_tree = fst (cleanup no_errors 10000000 10000000 (Some (Dir 0 ?es)))"
    by (simp add: swept_tree_def sweep_tree_def)
  have d: "distinct (map fst ?es)" by simp
  have wD: "(''downloads'' = downloads \<and> (3600000::int) = DOWNLOADS_MAX_AGE \<and>
        (10000000::int) = 10000000) \<or>
      (''downloads'' = processing \<and> (3600000::int) = PROCESSING_MAX_AGE \<and>
        (10000000::int) = 10000000)"
    by (simp add: downloads_def DOWNLOADS_MAX_AGE_def)
  have wP: "(''processing'' = downloads \<and> (1800000::int) = DOWNLOADS_MAX_AGE \<and>
        (10000000::int) = 10000000) \<or>
      (''processing'' = processing \<and> (1800000::int) = PROCESSING_MAX_AGE \<and>
        (10000000::int) = 10000000)"
    by (simp add: processing_def PROCESSING_MAX_AGE_def)
  have mD: "map_of ?es ''downloads'' = Some (Dir 0 ?D)" by simp
  have mP: "map_of ?es ''processing'' = Some (Dir 0 ?P)" by simp
  have dD: "distinct (map fst ?D)" by simp
  have dP: "distinct (map fst ?P)" by simp
  have xa: "map_of ?D ''a.mp4'' = Some (File 6460000 100)" by simp
  have xb: "map_of ?D ''b.mp4'' = Some (File 6340000 200)" by simp
  have xo: "map_of ?P ''old.part'' = Some (File 8140000 10)" by simp
  from sweep_pass_deletions [OF no_errors_ok d wP mP dP xo, where m = 0 and bytes = 0]
  have old: "lookup swept_tree [''processing'', ''old.part''] = None"
    unfolding t by simp
  from sweep_pass_deletions [OF no_errors_ok d wD mD dD xa, where m = 0 and bytes = 0]
  have a: "lookup swept_tree [''downloads'', ''a.mp4''] = Some (File 6460000 100)"
    unfolding t by simp
  from sweep_pass_deletions [OF no_errors_ok d wD mD dD xb, where m = 0 and bytes = 0]
  have b: "lookup swept_tree [''downloads'', ''b.mp4''] = None"
    unfolding t by simp
  from old a b show ?thesis by (intro conjI)
qed

text \<open>
  Claim C9, as worded, fails on a directory. The empty scratch directory
  \<^verbatim>\<open>processing/job1\<close>, one minute old, is gone after the pass although its age does not
  exceed the threshold of 30 minutes.
\<close>

theorem young_empty_directory_counterexample:
  "lookup sweep_tree [processing, ''job1''] = Some (Dir 9940000 []) \<and>
   \<not> 10000000 - mtime (Dir 9940000 []) > PROCESSING_MAX_AGE \<and>
   lookup swept_tree [processing, ''job1''] = None \<and>
   \<not> spec_deleted_iff_old sweep_tree swept_tree processing ''job1'' PROCESSING_MAX_AGE 10000000"
proof -
  let ?D = "[(''a.mp4'', File 6460000 100), (''b.mp4'', File 6340000 200)]"
  let ?P = "[(''old.part'', File 8140000 10), (''job1'', Dir 9940000 [])]"
  let ?es = "[(''downloads'', Dir 0 ?D), (''processing'', Dir 0 ?P)]"
  have t: "swept_tree = fst (cleanup no_errors 10000000 10000000 (Some (Dir 0 ?es)))"
    by (simp add: swept_tree_def sweep_tree_def)
  have d: "distinct (map fst ?es)" by simp
  have wP: "(processing = downloads \<and> PROCESSING_MAX_AGE = DOWNLOADS_MAX_AGE \<and>
        (10000000::int) = 10000000) \<or>
      (processing = processing \<and> PROCESSING_MAX_AGE = PROCESSING_MAX_AGE \<and>
        (10000000::int) = 10000000)"
    by simp
  have mP: "map_of ?es processing = Some (Dir 0 ?P)" by (simp add: processing_def)
  have dP: "distinct (map fst ?P)" by simp
  have xj: "map_of ?P ''job1'' = Some (Dir 9940000 [])" by simp
  have before: "lookup sweep_tree [processing, ''job1''] = Some (Dir 9940000 [])"
    by (simp add: sweep_tree_def processing_def)
  have young: "\<not> 10000000 - mtime (Dir 9940000 []) > PROCESSING_MAX_AGE"
    by (simp add: PROCESSING_MAX_AGE_def)
  from entry_gone_iff [OF no_errors_ok d wP mP dP xj, of 0]
  have after: "lookup swept_tree [processing, ''job1''] = None"
    unfolding t by simp
  from before young after
  have "\<not> spec_deleted_iff_old sweep_tree swept_tree processing ''job1'' PROCESSING_MAX_AGE 10000000"
    by (simp add: spec_deleted_iff_old_def)
  with before young after show ?thesis by (intro conjI)
qed

end
